theory Spec2Isabelle
  imports Complex_Main "HOL-Library.Char_ord" "HOL-Library.List_Lexorder" "HOL-Library.Sublist"
    "HOL-Library.Multiset"
begin

section \<open>Python values of the STAC module\<close>

text \<open>
  \<^verbatim>\<open>pygeoapi/api/stac.py\<close> works on what \<^verbatim>\<open>json.loads\<close> returns: \<^verbatim>\<open>None\<close>, booleans,
  integers, floats, strings, lists and dictionaries. A dictionary is an association list in
  insertion order with distinct keys, read with \<open>map_of\<close>. Floats are read as real numbers:
  the module only compares them.
\<close>

datatype json = JNull | JBool bool | JInt int | JFloat real | JStr string
  | JArr "json list" | JObj "(string \<times> json) list"

text \<open>
  No \<^verbatim>\<open>except\<close> clause of the module names a Python exception class other than the
  provider's two, so every exception that leaves a function is one value.
\<close>

datatype pyerror = Exception

fun and_then :: "pyerror + 'a \<Rightarrow> ('a \<Rightarrow> pyerror + 'b) \<Rightarrow> pyerror + 'b" where
  "and_then (Inl e) f = Inl e"
| "and_then (Inr x) f = f x"

text \<open>
  A list comprehension \<^verbatim>\<open>[g(r) for r in xs if c(r)]\<close>: the body says for each element whether
  it raises, is skipped (\<open>None\<close>) or is emitted; the first raise ends the comprehension.
\<close>

fun comprehension :: "('a \<Rightarrow> pyerror + 'b option) \<Rightarrow> 'a list \<Rightarrow> pyerror + 'b list" where
  "comprehension f [] = Inr []"
| "comprehension f (x # xs) =
     (case f x of
        Inl e \<Rightarrow> Inl e
      | Inr None \<Rightarrow> comprehension f xs
      | Inr (Some y) \<Rightarrow> (case comprehension f xs of Inl e \<Rightarrow> Inl e | Inr ys \<Rightarrow> Inr (y # ys)))"

definition mapM :: "('a \<Rightarrow> pyerror + 'b) \<Rightarrow> 'a list \<Rightarrow> pyerror + 'b list" where
  "mapM f xs = comprehension (\<lambda>x. and_then (f x) (\<lambda>y. Inr (Some y))) xs"

text \<open>\<^verbatim>\<open>v[key]\<close> with a string key: only a dictionary holding the key answers.\<close>

fun getitem :: "json \<Rightarrow> string \<Rightarrow> pyerror + json" where
  "getitem (JObj d) k = (case map_of d k of None \<Rightarrow> Inl Exception | Some v \<Rightarrow> Inr v)"
| "getitem _ k = Inl Exception"

text \<open>\<^verbatim>\<open>v.get(key, default)\<close>: a method of dictionaries only.\<close>

fun py_get :: "json \<Rightarrow> string \<Rightarrow> json \<Rightarrow> pyerror + json" where
  "py_get (JObj d) k dflt = (case map_of d k of None \<Rightarrow> Inr dflt | Some v \<Rightarrow> Inr v)"
| "py_get _ k dflt = Inl Exception"

text \<open>\<^verbatim>\<open>d[k] = v\<close>, \<^verbatim>\<open>d.update(e)\<close> and \<^verbatim>\<open>del d[k]\<close> on the association list.\<close>

fun dict_set :: "string \<Rightarrow> json \<Rightarrow> (string \<times> json) list \<Rightarrow> (string \<times> json) list" where
  "dict_set k v [] = [(k, v)]"
| "dict_set k v ((k', w) # d) = (if k = k' then (k, v) # d else (k', w) # dict_set k v d)"

definition dict_update :: "(string \<times> json) list \<Rightarrow> (string \<times> json) list \<Rightarrow> (string \<times> json) list" where
  "dict_update d e = fold (\<lambda>(k, v). dict_set k v) e d"

definition dict_del :: "string \<Rightarrow> (string \<times> json) list \<Rightarrow> (string \<times> json) list" where
  "dict_del k d = filter (\<lambda>(k', v). k' \<noteq> k) d"

text \<open>
  Iterating a value (\<^verbatim>\<open>for x in v\<close>, \<^verbatim>\<open>f(*v)\<close>): a list gives its elements, a string its
  characters, a dictionary its keys; the other values are not iterable.
\<close>

fun py_iter :: "json \<Rightarrow> pyerror + json list" where
  "py_iter (JArr xs) = Inr xs"
| "py_iter (JStr s) = Inr (map (\<lambda>c. JStr [c]) s)"
| "py_iter (JObj d) = Inr (map (\<lambda>(k, v). JStr k) d)"
| "py_iter _ = Inl Exception"

text \<open>
  Python's \<^verbatim>\<open>==\<close> and \<^verbatim>\<open><\<close> on these values. Booleans are the integers 1 and 0, integers
  and floats compare by value, strings and lists lexicographically, dictionaries are equal
  when they hold equal values under the same keys; \<^verbatim>\<open><\<close> between any other pair raises
  TypeError, here \<open>None\<close>.
\<close>

fun num_of :: "json \<Rightarrow> real option" where
  "num_of (JBool b) = Some (if b then 1 else 0)"
| "num_of (JInt i) = Some (real_of_int i)"
| "num_of (JFloat r) = Some r"
| "num_of _ = None"

fun py_eq :: "json \<Rightarrow> json \<Rightarrow> bool"
  and py_eq_list :: "json list \<Rightarrow> json list \<Rightarrow> bool"
  and py_eq_items :: "(string \<times> json) list \<Rightarrow> (string \<times> json) list \<Rightarrow> bool"
  and py_eq_item :: "string \<Rightarrow> json \<Rightarrow> (string \<times> json) list \<Rightarrow> bool" where
  "py_eq JNull b = (b = JNull)"
| "py_eq (JBool x) b = (num_of b = Some (if x then 1 else 0))"
| "py_eq (JInt i) b = (num_of b = Some (real_of_int i))"
| "py_eq (JFloat r) b = (num_of b = Some r)"
| "py_eq (JStr s) b = (b = JStr s)"
| "py_eq (JArr xs) b = (case b of JArr ys \<Rightarrow> py_eq_list xs ys | _ \<Rightarrow> False)"
| "py_eq (JObj d) b = (case b of JObj e \<Rightarrow> length d = length e \<and> py_eq_items d e | _ \<Rightarrow> False)"
| "py_eq_list [] ys = (ys = [])"
| "py_eq_list (x # xs) ys = (case ys of [] \<Rightarrow> False | y # ys' \<Rightarrow> py_eq x y \<and> py_eq_list xs ys')"
| "py_eq_items [] e = True"
| "py_eq_items ((k, v) # d) e = (py_eq_item k v e \<and> py_eq_items d e)"
| "py_eq_item k v [] = False"
| "py_eq_item k v ((k', w) # e) = (if k = k' then py_eq v w else py_eq_item k v e)"

fun py_lt :: "json \<Rightarrow> json \<Rightarrow> bool option"
  and py_lt_list :: "json list \<Rightarrow> json list \<Rightarrow> bool option" where
  "py_lt (JStr s) b = (case b of JStr t \<Rightarrow> Some (s < t) | _ \<Rightarrow> None)"
| "py_lt (JArr xs) b = (case b of JArr ys \<Rightarrow> py_lt_list xs ys | _ \<Rightarrow> None)"
| "py_lt JNull b = None"
| "py_lt (JObj d) b = None"
| "py_lt (JBool x) b = (case num_of b of Some r \<Rightarrow> Some ((if x then 1 else 0) < r) | None \<Rightarrow> None)"
| "py_lt (JInt i) b = (case num_of b of Some r \<Rightarrow> Some (real_of_int i < r) | None \<Rightarrow> None)"
| "py_lt (JFloat q) b = (case num_of b of Some r \<Rightarrow> Some (q < r) | None \<Rightarrow> None)"
| "py_lt_list [] ys = Some (ys \<noteq> [])"
| "py_lt_list (x # xs) ys =
     (case ys of
        [] \<Rightarrow> Some False
      | y # ys' \<Rightarrow> if py_eq x y then py_lt_list xs ys' else py_lt x y)"

section \<open>Strings\<close>

text \<open>
  \<^verbatim>\<open>s.split(sep)\<close> for a separator that is not empty: the pieces between the occurrences of
  \<open>sep\<close> found from the left, never an empty list.
\<close>

function split_str :: "string \<Rightarrow> string \<Rightarrow> string list" where
  "split_str sep s =
     (if s = [] then [[]]
      else if sep \<noteq> [] \<and> prefix sep s then [] # split_str sep (drop (length sep) s)
      else (case split_str sep (tl s) of
              [] \<Rightarrow> [[hd s]]
            | w # ws \<Rightarrow> (hd s # w) # ws))"
  by pat_completeness auto
termination
  by (relation "measure (\<lambda>(sep, s). length s)") (auto simp: neq_Nil_conv)

declare split_str.simps [simp del]

text \<open>\<^verbatim>\<open>s.replace(sub, '', 1)\<close>: the first occurrence of \<open>sub\<close> is removed.\<close>

fun remove_first :: "string \<Rightarrow> string \<Rightarrow> string" where
  "remove_first sub [] = []"
| "remove_first sub (c # cs) =
     (if prefix sub (c # cs) then drop (length sub) (c # cs) else c # remove_first sub cs)"

section \<open>The service: configuration, request, responses\<close>

text \<open>
  What \<^verbatim>\<open>get_data_path\<close> of a collection's STAC provider does: it raises
  ProviderNotFoundError, raises something else, returns a dictionary, or returns the content
  of a file (kept as what \<^verbatim>\<open>json.loads\<close> makes of it, \<open>None\<close> when that raises).
\<close>

datatype provider_result =
    ProviderNotFoundError
  | ProviderOtherError
  | Data "(string \<times> json) list"
  | File "json option"

text \<open>
  What \<^verbatim>\<open>load_plugin('provider', get_provider_by_type(..., 'stac'))\<close> does for a collection:
  it returns the provider, raises ProviderConnectionError, or raises something else.
\<close>

datatype plugin =
    Provider "string \<Rightarrow> string \<Rightarrow> string \<Rightarrow> provider_result"
  | ProviderConnectionError
  | LoadError

text \<open>
  A configured stac-collection: its description as \<^verbatim>\<open>l10n.translate\<close> gives it, its
  \<^verbatim>\<open>links\<close> and what loading its provider does.
\<close>

record collection =
  c_description :: json
  c_links :: "(string \<times> json) list list"
  c_plugin :: plugin

text \<open>
  The third component of a handler's result: a JSON text (kept parsed), a rendered HTML page,
  or a file's content.
\<close>

datatype body = Json json | Html | Bytes "json option"

type_synonym response = "nat \<times> body"

text \<open>
  The \<^verbatim>\<open>API\<close> object as the module reads it. \<open>stac_collections\<close> is the dictionary
  \<^verbatim>\<open>filter_dict_by_key_value(api.config['resources'], 'type', 'stac-collection')\<close>, in the
  order of the configuration; \<open>title\<close> and \<open>description\<close> are the identification of the
  service as \<^verbatim>\<open>l10n.translate\<close> gives it; \<open>f_json\<close>, \<open>type_json\<close> and \<open>type_html\<close> are
  the imported constants \<^verbatim>\<open>F_JSON\<close>, \<^verbatim>\<open>FORMAT_TYPES[F_JSON]\<close> and
  \<^verbatim>\<open>FORMAT_TYPES[F_HTML]\<close>; \<open>format_exception\<close> is what \<^verbatim>\<open>api.get_format_exception\<close>
  returns for a request that is not valid.
\<close>

record api =
  base_url :: string
  stac_collections :: "(string \<times> collection) list"
  title :: json
  description :: json
  f_json :: string
  type_json :: string
  type_html :: string
  format_exception :: response

text \<open>
  The \<^verbatim>\<open>APIRequest\<close>: \<open>is_valid\<close> is \<^verbatim>\<open>request.is_valid()\<close>, \<open>is_html\<close> is
  \<^verbatim>\<open>request.format == F_HTML\<close>, \<open>args\<close> is \<^verbatim>\<open>request._args.to_dict()\<close> and \<open>data\<close> is
  \<^verbatim>\<open>json.loads(request._data.decode("utf-8"))\<close>, \<open>None\<close> when that raises.
\<close>

record request =
  is_valid :: bool
  is_html :: bool
  args :: "(string \<times> string) list"
  data :: "json option"

text \<open>
  Modelled from the spec: \<^verbatim>\<open>API.get_exception\<close> is not in the module. Section 6 gives
  the error body as \<^verbatim>\<open>{code: string, description: string}\<close>; for an HTML request the body
  is a rendered page.
\<close>

definition get_exception :: "nat \<Rightarrow> request \<Rightarrow> string \<Rightarrow> string \<Rightarrow> response" where
  "get_exception status req code msg =
     (status, if is_html req then Html
              else Json (JObj [(''code'', JStr code), (''description'', JStr msg)]))"

text \<open>\<^verbatim>\<open>json.loads\<close> of a handler's content: an HTML page is no JSON text.\<close>

fun json_loads :: "body \<Rightarrow> pyerror + json" where
  "json_loads (Json j) = Inr j"
| "json_loads Html = Inl Exception"
| "json_loads (Bytes None) = Inl Exception"
| "json_loads (Bytes (Some j)) = Inr j"

section \<open>get\_stac\_path\<close>

text \<open>\<^verbatim>\<open>content['links'].extend(links)\<close>: only a list has \<^verbatim>\<open>extend\<close>.\<close>

definition extend_links ::
  "(string \<times> json) list \<Rightarrow> (string \<times> json) list list \<Rightarrow> pyerror + (string \<times> json) list" where
  "extend_links content links =
     (case map_of content ''links'' of
        Some (JArr ls) \<Rightarrow> Inr (dict_set ''links'' (JArr (ls @ map JObj links)) content)
      | _ \<Rightarrow> Inl Exception)"

text \<open>
  Lines 203 to 244 of \<^verbatim>\<open>get_stac_path\<close>, once the provider has answered with a
  dictionary. The HTML branch renders a template, except for an item view of an unknown type,
  where building the message reads the attribute \<^verbatim>\<open>content.type\<close> of a dictionary.
\<close>

definition path_content ::
  "request \<Rightarrow> collection \<Rightarrow> string \<Rightarrow> (string \<times> json) list \<Rightarrow> (string \<times> json) list
     \<Rightarrow> pyerror + response" where
  "path_content req coll path base stac_data =
     (let content = dict_update base stac_data in
      case c_links coll of
        [] \<Rightarrow> Inl Exception
      | first # _ \<Rightarrow>
          and_then (if length first > 0 then extend_links content (c_links coll) else Inr content)
            (\<lambda>content.
               if is_html req then
                 (if map_of content ''assets'' \<noteq> None
                     \<and> map_of content ''type'' \<noteq> Some (JStr ''Collection'')
                     \<and> map_of content ''type'' \<noteq> Some (JStr ''Feature'')
                  then Inl Exception
                  else Inr (200, Html))
               else Inr (200, Json (JObj content))))"

definition get_stac_path :: "api \<Rightarrow> request \<Rightarrow> string \<Rightarrow> pyerror + response" where
  "get_stac_path a req path =
     (case split_str ''/'' path of
        [] \<Rightarrow> Inr (get_exception 404 req ''NotFound'' ''Collection not found'')
      | dataset # _ \<Rightarrow>
          (case map_of (stac_collections a) dataset of
             None \<Rightarrow> Inr (get_exception 404 req ''NotFound'' ''Collection not found'')
           | Some coll \<Rightarrow>
               (case c_plugin coll of
                  ProviderConnectionError \<Rightarrow>
                    Inr (get_exception 500 req ''NoApplicableCode'' ''connection error (check logs)'')
                | LoadError \<Rightarrow> Inl Exception
                | Provider get_data_path \<Rightarrow>
                    (case get_data_path (base_url a @ ''/stac'') path (remove_first dataset path) of
                       ProviderNotFoundError \<Rightarrow>
                         Inr (get_exception 404 req ''NotFound'' ''resource not found'')
                     | ProviderOtherError \<Rightarrow>
                         Inr (get_exception 500 req ''NoApplicableCode'' ''data query error'')
                     | File b \<Rightarrow> Inr (200, Bytes b)
                     | Data stac_data \<Rightarrow>
                         path_content req coll path
                           [(''id'', JStr (dataset @ ''-stac'')),
                            (''type'', JStr ''Catalog''),
                            (''stac_version'', JStr ''1.0.0''),
                            (''description'', c_description coll),
                            (''links'', JArr [])]
                           stac_data))))"

section \<open>The recursive item search\<close>

text \<open>Line 365: the \<^verbatim>\<open>href\<close> of every link whose \<^verbatim>\<open>rel\<close> is not root, self or parent.\<close>

definition followed_href :: "json \<Rightarrow> pyerror + json option" where
  "followed_href r =
     and_then (getitem r ''rel'')
       (\<lambda>rel. if rel \<noteq> JStr ''root'' \<and> rel \<noteq> JStr ''self'' \<and> rel \<noteq> JStr ''parent''
               then and_then (getitem r ''href'') (\<lambda>h. Inr (Some h))
               else Inr None)"

text \<open>Line 366: \<^verbatim>\<open>r.split('stac')[-1][1:]\<close>, a method of strings.\<close>

fun href_path :: "json \<Rightarrow> pyerror + string" where
  "href_path (JStr s) = Inr (drop 1 (last (split_str ''stac'' s)))"
| "href_path _ = Inl Exception"

text \<open>Lines 367 to 369: the document \<^verbatim>\<open>get_stac_path\<close> serves at a path, parsed.\<close>

definition fetch :: "api \<Rightarrow> request \<Rightarrow> string \<Rightarrow> pyerror + json" where
  "fetch a req path = and_then (get_stac_path a req path) (\<lambda>r. json_loads (snd r))"

text \<open>Lines 370 and 371: the Features, and the \<^verbatim>\<open>links\<close> of the other documents.\<close>

definition feature_of :: "json \<Rightarrow> pyerror + json option" where
  "feature_of r =
     and_then (getitem r ''type'') (\<lambda>t. Inr (if t = JStr ''Feature'' then Some r else None))"

definition links_of :: "json \<Rightarrow> pyerror + json option" where
  "links_of r =
     and_then (getitem r ''type'')
       (\<lambda>t. if t \<noteq> JStr ''Feature'' then and_then (getitem r ''links'') (\<lambda>l. Inr (Some l))
             else Inr None)"

text \<open>Lines 374 to 377: the links of the next round.\<close>

definition descended :: "json \<Rightarrow> pyerror + json option" where
  "descended obj =
     and_then (getitem obj ''rel'')
       (\<lambda>rel. Inr (if rel = JStr ''chlid'' \<or> rel = JStr ''item'' then Some obj else None))"

definition next_round :: "json list \<Rightarrow> pyerror + json list" where
  "next_round result =
     and_then (mapM (\<lambda>r. and_then (py_iter r) (comprehension descended)) result)
       (\<lambda>rs. Inr (concat rs))"

text \<open>Lines 365 to 377: one round of the search, from a list of links to the Features found
  and, when a document that is no Feature was met, the links of the next round.\<close>

definition one_round ::
  "api \<Rightarrow> request \<Rightarrow> json list \<Rightarrow> pyerror + json list \<times> json list option" where
  "one_round a req result =
     and_then (comprehension followed_href result)
       (\<lambda>hrefs. and_then (mapM href_path hrefs)
       (\<lambda>paths. and_then (mapM (fetch a req) paths)
       (\<lambda>docs. and_then (comprehension feature_of docs)
       (\<lambda>items. and_then (comprehension links_of docs)
       (\<lambda>result. if length result > 0
                  then and_then (next_round result) (\<lambda>recursive. Inr (items, Some recursive))
                  else Inr (items, None))))))"

text \<open>
  \<^verbatim>\<open>_recursiveSearchItems\<close>. The first argument bounds the nesting of the calls; \<open>None\<close>
  says that the bound was reached, which is where CPython raises RecursionError and where
  an unbounded interpreter goes on.
\<close>

fun recursiveSearchItems ::
  "api \<Rightarrow> request \<Rightarrow> nat \<Rightarrow> json list \<Rightarrow> (pyerror + json list) option" where
  "recursiveSearchItems a req 0 result = None"
| "recursiveSearchItems a req (Suc depth) result =
     (case one_round a req result of
        Inl e \<Rightarrow> Some (Inl e)
      | Inr (items, None) \<Rightarrow> Some (Inr items)
      | Inr (items, Some recursive) \<Rightarrow>
          (case recursiveSearchItems a req depth recursive of
             None \<Rightarrow> None
           | Some (Inl e) \<Rightarrow> Some (Inl e)
           | Some (Inr tmp) \<Rightarrow> Some (Inr (items @ tmp))))"

section \<open>get\_stac\_root\<close>

text \<open>Lines 110 to 122: the links the root catalog gives one configured collection.\<close>

definition child_links :: "api \<Rightarrow> request \<Rightarrow> string \<Rightarrow> json list" where
  "child_links a req key =
     JObj [(''rel'', JStr ''child''),
           (''href'', JStr (base_url a @ ''/stac'' @ ''/'' @ key @ ''?f='' @ f_json a)),
           (''type'', JStr (type_json a))]
     # (if is_html req
        then [JObj [(''rel'', JStr ''child''),
                    (''href'', JStr (base_url a @ ''/stac'' @ ''/'' @ key)),
                    (''type'', JStr (type_html a))]]
        else [])"

definition CONFORMANCE_CLASSES :: "json list" where
  "CONFORMANCE_CLASSES =
     [JStr ''https://api.stacspec.org/v1.0.0/collections'',
      JStr ''https://api.stacspec.org/v1.0.0/core'',
      JStr ''https://api.stacspec.org/v1.0.0/ogcapi-features'',
      JStr ''https://api.stacspec.org/v1.0.0/item-search'',
      JStr ''https://api.stacspec.org/v1.0.0/item-search#sort'',
      JStr ''https://api.stacspec.org/v1.0.0/collections'']"

definition root_links :: "api \<Rightarrow> request \<Rightarrow> json list" where
  "root_links a req =
     concat (map (\<lambda>(key, value). child_links a req key) (stac_collections a))
     @ [JObj [(''rel'', JStr ''root''), (''href'', JStr (base_url a @ ''/stac'')),
              (''type'', JStr (type_json a))],
        JObj [(''rel'', JStr ''self''), (''href'', JStr (base_url a @ ''/stac'')),
              (''type'', JStr (type_json a))],
        JObj [(''rel'', JStr ''service-desc''),
              (''type'', JStr ''application/vnd.oai.openapi+json;version=3.0''),
              (''href'', JStr (base_url a @ ''/openapi?f=json''))],
        JObj [(''rel'', JStr ''service-doc''), (''type'', JStr ''text/html''),
              (''href'', JStr (base_url a @ ''/openapi?f=html''))],
        JObj [(''rel'', JStr ''search''), (''type'', JStr ''application/geo+json''),
              (''title'', JStr ''STAC search''), (''href'', JStr (base_url a @ ''/stac'' @ ''/search'')),
              (''method'', JStr ''GET'')]]"

definition get_stac_root :: "api \<Rightarrow> request \<Rightarrow> response" where
  "get_stac_root a req =
     (if is_html req then (200, Html)
      else (200, Json (JObj [(''id'', JStr ''pygeoapi-stac''),
                             (''type'', JStr ''Catalog''),
                             (''stac_version'', JStr ''1.0.0''),
                             (''title'', title a),
                             (''description'', description a),
                             (''conformsTo'', JArr CONFORMANCE_CLASSES),
                             (''links'', JArr (root_links a req))])))"

section \<open>get\_stac\_search: reading the query\<close>

text \<open>
  Lines 396 to 404: \<^verbatim>\<open>if (queries.get(key)): queries[key] = queries[key].split(',')\<close>, on the
  string values of a GET request.
\<close>

definition split_arg :: "string \<Rightarrow> (string \<times> json) list \<Rightarrow> (string \<times> json) list" where
  "split_arg key queries =
     (case map_of queries key of
        Some (JStr v) \<Rightarrow>
          if v \<noteq> [] then dict_set key (JArr (map JStr (split_str '','' v))) queries else queries
      | _ \<Rightarrow> queries)"

text \<open>
  Lines 394 to 406: the query dictionary. A POST body that is no dictionary has no
  \<^verbatim>\<open>get\<close>, which line 408 calls first.
\<close>

definition get_queries :: "request \<Rightarrow> string \<Rightarrow> pyerror + (string \<times> json) list" where
  "get_queries req method =
     (if method = ''GET''
      then Inr (split_arg ''bbox'' (split_arg ''collections'' (split_arg ''ids''
                  (map (\<lambda>(k, v). (k, JStr v)) (args req)))))
      else (case data req of
              Some (JObj d) \<Rightarrow> Inr d
            | _ \<Rightarrow> Inl Exception))"

text \<open>\<^verbatim>\<open>v[0]\<close>: the first element of a list, the first character of a string.\<close>

fun index0 :: "json \<Rightarrow> pyerror + json" where
  "index0 (JArr (x # xs)) = Inr x"
| "index0 (JStr (c # cs)) = Inr (JStr [c])"
| "index0 _ = Inl Exception"

text \<open>Lines 408 and 409. A value differs from \<^verbatim>\<open>''\<close> unless it is that string.\<close>

definition read_max_items :: "(string \<times> json) list \<Rightarrow> json" where
  "read_max_items queries =
     (case map_of queries ''max_items'' of
        Some v \<Rightarrow> if v \<noteq> JStr [] then v else JInt (- 1)
      | None \<Rightarrow> JInt (- 1))"

definition read_sortby :: "(string \<times> json) list \<Rightarrow> pyerror + json" where
  "read_sortby queries =
     (case map_of queries ''sortby'' of
        Some v \<Rightarrow> if v \<noteq> JStr [] then index0 v else Inr (JObj [(''field'', JStr [])])
      | None \<Rightarrow> Inr (JObj [(''field'', JStr [])]))"

text \<open>Lines 410 to 415: \<^verbatim>\<open>if (queries.get(key) is not None): del queries[key]\<close>.\<close>

definition strip_key :: "string \<Rightarrow> (string \<times> json) list \<Rightarrow> (string \<times> json) list" where
  "strip_key key queries =
     (case map_of queries key of
        Some v \<Rightarrow> if v \<noteq> JNull then dict_del key queries else queries
      | None \<Rightarrow> queries)"

section \<open>get\_stac\_search: the items under the collections\<close>

text \<open>\<^verbatim>\<open>r.endswith('json')\<close> and \<^verbatim>\<open>r.split('/')[-1].split('?')[0]\<close>, methods of strings.\<close>

definition root_child_href :: "json \<Rightarrow> pyerror + json option" where
  "root_child_href r =
     and_then (getitem r ''rel'')
       (\<lambda>rel. if rel = JStr ''child'' then and_then (getitem r ''href'') (\<lambda>h. Inr (Some h))
               else Inr None)"

fun collection_of_href :: "json \<Rightarrow> pyerror + json option" where
  "collection_of_href (JStr s) =
     (if suffix ''json'' s
      then Inr (Some (JStr (hd (split_str ''?'' (last (split_str ''/'' s))))))
      else Inr None)"
| "collection_of_href _ = Inl Exception"

text \<open>Lines 425 to 429: every configured collection, read from the root catalog.\<close>

definition root_collections :: "api \<Rightarrow> request \<Rightarrow> pyerror + json" where
  "root_collections a req =
     and_then (json_loads (snd (get_stac_root a req)))
       (\<lambda>root. and_then (getitem root ''links'')
       (\<lambda>links. and_then (py_iter links)
       (\<lambda>links. and_then (comprehension root_child_href links)
       (\<lambda>hrefs. and_then (comprehension collection_of_href hrefs)
       (\<lambda>names. Inr (JArr names))))))"

text \<open>Lines 423 to 431: the scope of the search, \<^verbatim>\<open>queries['collections']\<close>.\<close>

definition with_collections ::
  "api \<Rightarrow> request \<Rightarrow> (string \<times> json) list \<Rightarrow> pyerror + (string \<times> json) list" where
  "with_collections a req queries =
     (if ''collections'' \<notin> set (map fst queries)
      then and_then (root_collections a req)
             (\<lambda>root_result. Inr (dict_set ''collections'' root_result queries))
      else Inr queries)"

text \<open>Lines 433 to 438: the \<^verbatim>\<open>links\<close> of the document of every collection of the scope.\<close>

fun fetch_value :: "api \<Rightarrow> request \<Rightarrow> json \<Rightarrow> pyerror + response" where
  "fetch_value a req (JStr path) = get_stac_path a req path"
| "fetch_value a req _ = Inl Exception"

definition present_links :: "json \<Rightarrow> pyerror + json option" where
  "present_links r =
     and_then (py_get r ''links'' (JStr []))
       (\<lambda>l. if l \<noteq> JStr [] then and_then (getitem r ''links'') (\<lambda>l. Inr (Some l))
             else Inr None)"

definition collection_links :: "api \<Rightarrow> request \<Rightarrow> (string \<times> json) list \<Rightarrow> pyerror + json list" where
  "collection_links a req queries =
     and_then (getitem (JObj queries) ''collections'')
       (\<lambda>collections. and_then (py_iter collections)
       (\<lambda>collections. and_then (mapM (fetch_value a req) collections)
       (\<lambda>result. and_then (mapM (\<lambda>r. json_loads (snd r)) result)
       (\<lambda>result. comprehension present_links result))))"

text \<open>
  Lines 440 and 441: \<^verbatim>\<open>_recursiveSearchItems\<close> on the links of each collection in turn, the
  items concatenated. The function iterates its argument first.
\<close>

fun search_items :: "api \<Rightarrow> request \<Rightarrow> nat \<Rightarrow> json list \<Rightarrow> (pyerror + json list) option" where
  "search_items a req depth [] = Some (Inr [])"
| "search_items a req depth (l # ls) =
     (case py_iter l of
        Inl e \<Rightarrow> Some (Inl e)
      | Inr links \<Rightarrow>
          (case recursiveSearchItems a req depth links of
             None \<Rightarrow> None
           | Some (Inl e) \<Rightarrow> Some (Inl e)
           | Some (Inr c) \<Rightarrow>
               (case search_items a req depth ls of
                  None \<Rightarrow> None
                | Some (Inl e) \<Rightarrow> Some (Inl e)
                | Some (Inr cs) \<Rightarrow> Some (Inr (c @ cs)))))"

section \<open>get\_stac\_search: the filters\<close>

text \<open>
  The geometry library (shapely) as the module calls it: \<^verbatim>\<open>shapely.geometry.box(*args)\<close>
  (\<open>None\<close> when it raises), \<^verbatim>\<open>shape(geojson)\<close> (the text of the exception when it raises)
  and \<^verbatim>\<open>a.intersects(b)\<close>.
\<close>

record 'g geo =
  geo_box :: "json list \<Rightarrow> 'g option"
  geo_shape :: "json \<Rightarrow> string + 'g"
  geo_intersects :: "'g \<Rightarrow> 'g \<Rightarrow> bool"

text \<open>
  \<^verbatim>\<open>x in c\<close>: by \<^verbatim>\<open>==\<close> among the elements of a list, as a substring of a string, among the
  keys of a dictionary (whose keys must be hashable); no other value is a container.
\<close>

fun py_in :: "json \<Rightarrow> json \<Rightarrow> pyerror + bool" where
  "py_in x (JArr ys) = Inr (list_ex (py_eq x) ys)"
| "py_in x (JStr s) = (case x of JStr t \<Rightarrow> Inr (sublist t s) | _ \<Rightarrow> Inl Exception)"
| "py_in x (JObj d) =
     (case x of
        JArr _ \<Rightarrow> Inl Exception
      | JObj _ \<Rightarrow> Inl Exception
      | _ \<Rightarrow> Inr (list_ex (\<lambda>(k, v). x = JStr k) d))"
| "py_in x _ = Inl Exception"

text \<open>\<^verbatim>\<open>[i for i, x in enumerate(xs) if (x)]\<close> on a list of booleans.\<close>

definition true_indices :: "bool list \<Rightarrow> nat list" where
  "true_indices xs = map fst (filter snd (enumerate 0 xs))"

text \<open>
  \<^verbatim>\<open>collections.Counter\<close>: a dictionary from index to count, in the order the indices were
  first counted. \<^verbatim>\<open>update\<close> counts every element of a list.
\<close>

fun counter_add :: "nat \<Rightarrow> (nat \<times> nat) list \<Rightarrow> (nat \<times> nat) list" where
  "counter_add i [] = [(i, 1)]"
| "counter_add i ((j, n) # c) = (if i = j then (j, n + 1) # c else (j, n) # counter_add i c)"

definition counter_update :: "nat list \<Rightarrow> (nat \<times> nat) list \<Rightarrow> (nat \<times> nat) list" where
  "counter_update xs c = fold counter_add xs c"

text \<open>Lines 455 to 461, 465 to 472 and 484 to 487: the indices each filter finds.\<close>

definition ids_found :: "(string \<times> json) list \<Rightarrow> json list \<Rightarrow> pyerror + nat list" where
  "ids_found queries result =
     and_then (getitem (JObj queries) ''ids'')
       (\<lambda>ids. and_then (mapM (\<lambda>obj. getitem obj ''id'') result)
       (\<lambda>items_id. and_then (mapM (\<lambda>x. py_in x ids) items_id)
       (\<lambda>items_id. Inr (true_indices items_id))))"

definition make_box :: "'g geo \<Rightarrow> json \<Rightarrow> pyerror + 'g" where
  "make_box g v =
     and_then (py_iter v)
       (\<lambda>coords. case geo_box g coords of None \<Rightarrow> Inl Exception | Some b \<Rightarrow> Inr b)"

definition bbox_found :: "'g geo \<Rightarrow> (string \<times> json) list \<Rightarrow> json list \<Rightarrow> pyerror + nat list" where
  "bbox_found g queries result =
     and_then (getitem (JObj queries) ''bbox'')
       (\<lambda>bbox. and_then (make_box g bbox)
       (\<lambda>bbox. and_then (mapM (\<lambda>obj. getitem obj ''bbox'') result)
       (\<lambda>items_bbox. and_then (mapM (make_box g) items_bbox)
       (\<lambda>items_bbox. Inr (true_indices (map (\<lambda>x. geo_intersects g bbox x) items_bbox))))))"

definition item_shape :: "'g geo \<Rightarrow> json \<Rightarrow> pyerror + 'g" where
  "item_shape g obj =
     and_then (getitem obj ''geometry'')
       (\<lambda>geometry. case geo_shape g geometry of Inl msg \<Rightarrow> Inl Exception | Inr x \<Rightarrow> Inr x)"

definition intersects_found :: "'g geo \<Rightarrow> 'g \<Rightarrow> json list \<Rightarrow> pyerror + nat list" where
  "intersects_found g geoobj result =
     and_then (mapM (item_shape g) result)
       (\<lambda>items_geometry.
          Inr (true_indices (map (\<lambda>x. geo_intersects g geoobj x) items_geometry)))"

text \<open>
  One pass of the loop of line 452 over a key of the query. It raises, returns a response
  (the geometry of \<^verbatim>\<open>intersects\<close> could not be read), or goes on with the counter and
  \<^verbatim>\<open>got_filter\<close>.
\<close>

definition apply_filter ::
  "'g geo \<Rightarrow> request \<Rightarrow> (string \<times> json) list \<Rightarrow> json list \<Rightarrow> string
     \<Rightarrow> (nat \<times> nat) list \<times> bool \<Rightarrow> pyerror + (response + (nat \<times> nat) list \<times> bool)" where
  "apply_filter g req queries result filter_name st =
     (if filter_name = ''ids'' then
        and_then (ids_found queries result)
          (\<lambda>find_idx. Inr (Inr (counter_update find_idx (fst st), True)))
      else if filter_name = ''bbox'' then
        and_then (bbox_found g queries result)
          (\<lambda>find_idx. Inr (Inr (counter_update find_idx (fst st), True)))
      else if filter_name = ''intersects'' then
        and_then (getitem (JObj queries) ''intersects'')
          (\<lambda>geojson.
             case geo_shape g geojson of
               Inl msg \<Rightarrow>
                 Inr (Inl (get_exception 400 req ''InvalidParameterValue''
                             (''Error in converting geojson :'' @ msg)))
             | Inr geoobj \<Rightarrow>
                 and_then (intersects_found g geoobj result)
                   (\<lambda>find_idx. Inr (Inr (counter_update find_idx (fst st), True))))
      else Inr (Inr st))"

fun filter_loop ::
  "'g geo \<Rightarrow> request \<Rightarrow> (string \<times> json) list \<Rightarrow> json list \<Rightarrow> string list
     \<Rightarrow> (nat \<times> nat) list \<times> bool \<Rightarrow> pyerror + (response + (nat \<times> nat) list \<times> bool)" where
  "filter_loop g req queries result [] st = Inr (Inr st)"
| "filter_loop g req queries result (f # criteria) st =
     (case apply_filter g req queries result f st of
        Inl e \<Rightarrow> Inl e
      | Inr (Inl resp) \<Rightarrow> Inr (Inl resp)
      | Inr (Inr st') \<Rightarrow> filter_loop g req queries result criteria st')"

text \<open>\<^verbatim>\<open>list(filter_idx.keys())\<close>.\<close>

definition counter_keys :: "(nat \<times> nat) list \<Rightarrow> nat list" where
  "counter_keys c = map fst c"

text \<open>Lines 530 and 531: the indices kept, and the items at them.\<close>

definition find_idx_of :: "(nat \<times> nat) list \<times> bool \<Rightarrow> json list \<Rightarrow> nat list" where
  "find_idx_of st result = (if snd st then counter_keys (fst st) else [0..<length result])"

definition select_items :: "nat list \<Rightarrow> json list \<Rightarrow> json list" where
  "select_items find_idx result =
     map snd (filter (\<lambda>(i, r). i \<in> set find_idx) (enumerate 0 result))"

section \<open>get\_stac\_search: sorting and truncating\<close>

text \<open>
  \<^verbatim>\<open>k.get(sortby['field'], '')\<close>: \<open>k\<close> must be a dictionary and the key hashable; a key that
  is no string is no key of a parsed JSON object.
\<close>

fun dict_get :: "json \<Rightarrow> json \<Rightarrow> json \<Rightarrow> pyerror + json" where
  "dict_get (JObj d) (JStr k) dflt = Inr (case map_of d k of None \<Rightarrow> dflt | Some v \<Rightarrow> v)"
| "dict_get (JObj d) (JArr xs) dflt = Inl Exception"
| "dict_get (JObj d) (JObj e) dflt = Inl Exception"
| "dict_get (JObj d) _ dflt = Inr dflt"
| "dict_get _ _ dflt = Inl Exception"

definition sort_key_of :: "json \<Rightarrow> json \<Rightarrow> pyerror + json" where
  "sort_key_of sortby k =
     and_then (getitem sortby ''field'') (\<lambda>field. dict_get k field (JStr []))"

text \<open>
  \<^verbatim>\<open>sorted(xs, key=f)\<close>: the keys are computed first, then the list is sorted with \<^verbatim>\<open><\<close> on
  the keys, stably. The model inserts each element, from the left, before the first one whose
  key it is less than; a comparison that raises ends the sort.
\<close>

fun insert_sorted :: "json \<times> json \<Rightarrow> (json \<times> json) list \<Rightarrow> (json \<times> json) list option" where
  "insert_sorted x [] = Some [x]"
| "insert_sorted x (y # ys) =
     (case py_lt (fst x) (fst y) of
        None \<Rightarrow> None
      | Some True \<Rightarrow> Some (x # y # ys)
      | Some False \<Rightarrow> map_option (Cons y) (insert_sorted x ys))"

fun sort_pairs :: "(json \<times> json) list \<Rightarrow> (json \<times> json) list \<Rightarrow> (json \<times> json) list option" where
  "sort_pairs acc [] = Some acc"
| "sort_pairs acc (x # xs) =
     (case insert_sorted x acc of None \<Rightarrow> None | Some acc' \<Rightarrow> sort_pairs acc' xs)"

definition py_sorted :: "(json \<Rightarrow> pyerror + json) \<Rightarrow> json list \<Rightarrow> pyerror + json list" where
  "py_sorted key xs =
     and_then (mapM key xs)
       (\<lambda>keys. case sort_pairs [] (zip keys xs) of
                  None \<Rightarrow> Inl Exception
                | Some ps \<Rightarrow> Inr (map snd ps))"

text \<open>
  \<^verbatim>\<open>xs[:n]\<close>: \<open>n\<close> is an integer (a negative one counts from the end), a boolean or
  \<^verbatim>\<open>None\<close>.
\<close>

fun py_take :: "json \<Rightarrow> json list \<Rightarrow> pyerror + json list" where
  "py_take (JInt n) xs =
     Inr (if 0 \<le> n then take (nat n) xs else take (length xs - nat (- n)) xs)"
| "py_take (JBool b) xs = Inr (take (if b then 1 else 0) xs)"
| "py_take JNull xs = Inr xs"
| "py_take _ xs = Inl Exception"

text \<open>Line 545: the response 200 with a FeatureCollection.\<close>

definition feature_collection :: "json list \<Rightarrow> response" where
  "feature_collection features =
     (200, Json (JObj [(''type'', JStr ''FeatureCollection''), (''features'', JArr features)]))"

text \<open>Lines 532 to 546: the response made of the items that passed the filters.\<close>

definition assemble :: "json \<Rightarrow> json \<Rightarrow> json list \<Rightarrow> pyerror + response" where
  "assemble sortby max_items result =
     and_then (py_sorted (sort_key_of sortby) result)
       (\<lambda>result.
          and_then (py_take (if py_eq max_items (JInt (- 1)) then JInt (int (length result))
                             else max_items) result)
            (\<lambda>features. Inr (feature_collection features)))"

text \<open>Lines 450 to 546: the filters, then the response.\<close>

definition filter_and_assemble ::
  "'g geo \<Rightarrow> request \<Rightarrow> (string \<times> json) list \<Rightarrow> json \<Rightarrow> json \<Rightarrow> json list
     \<Rightarrow> pyerror + response" where
  "filter_and_assemble g req queries sortby max_items result =
     (case filter_loop g req queries result (map fst queries) ([], False) of
        Inl e \<Rightarrow> Inl e
      | Inr (Inl resp) \<Rightarrow> Inr resp
      | Inr (Inr st) \<Rightarrow>
          assemble sortby max_items (select_items (find_idx_of st result) result))"

section \<open>get\_stac\_search\<close>

text \<open>Lines 408 to 546: the search for a query dictionary.\<close>

definition search_queries ::
  "api \<Rightarrow> 'g geo \<Rightarrow> request \<Rightarrow> nat \<Rightarrow> (string \<times> json) list
     \<Rightarrow> (pyerror + response) option" where
  "search_queries a g req depth queries =
     (case read_sortby queries of
        Inl e \<Rightarrow> Some (Inl e)
      | Inr sortby \<Rightarrow>
          (let max_items = read_max_items queries;
               queries = strip_key ''limit'' (strip_key ''sortby''
                           (strip_key ''max_items'' queries));
               criteria = map fst queries
           in if ''bbox'' \<in> set criteria \<and> ''intersects'' \<in> set criteria
              then Some (Inr (get_exception 400 req ''InvalidParameterValue''
                                ''Only one of either intersects or bbox may be specified''))
              else
                (case and_then (with_collections a req queries)
                        (\<lambda>queries. and_then (collection_links a req queries)
                                       (\<lambda>links. Inr (queries, links))) of
                   Inl e \<Rightarrow> Some (Inl e)
                 | Inr (queries, links) \<Rightarrow>
                     (case search_items a req depth links of
                        None \<Rightarrow> None
                      | Some (Inl e) \<Rightarrow> Some (Inl e)
                      | Some (Inr result) \<Rightarrow>
                          Some (filter_and_assemble g req queries sortby max_items result)))))"

text \<open>Lines 388 to 406, then the search.\<close>

definition get_stac_search ::
  "api \<Rightarrow> 'g geo \<Rightarrow> request \<Rightarrow> nat \<Rightarrow> string \<Rightarrow> (pyerror + response) option" where
  "get_stac_search a g req depth method =
     (if \<not> is_valid req then Some (Inr (format_exception a))
      else
        (case get_queries req method of
           Inl e \<Rightarrow> Some (Inl e)
         | Inr queries \<Rightarrow> search_queries a g req depth queries))"

section \<open>get\_stac\_collections\<close>

text \<open>
  Lines 264 to 272: the collections to describe. \<^verbatim>\<open>split\<close> never returns an empty list, so
  \<^verbatim>\<open>dir_tokens[0]\<close> and \<^verbatim>\<open>dir_tokens[-1]\<close> exist.
\<close>

definition selected_datasets :: "api \<Rightarrow> string \<Rightarrow> string list" where
  "selected_datasets a path =
     (let dir_tokens = split_str ''/'' path
      in if length (hd dir_tokens) = 2 then [last dir_tokens]
         else map fst (stac_collections a))"

text \<open>
  Lines 326 and 327: the title of a Collection is prefixed when the path has more than one
  token. \<open>str_of\<close> is how an f-string prints a value that is no string.
\<close>

definition prefix_title ::
  "(json \<Rightarrow> string) \<Rightarrow> string list \<Rightarrow> string \<Rightarrow> (string \<times> json) list
     \<Rightarrow> pyerror + (string \<times> json) list" where
  "prefix_title str_of dir_tokens dataset content =
     (if map_of content ''type'' = Some (JStr ''Collection'') \<and> length dir_tokens > 1
      then (case map_of content ''title'' of
              None \<Rightarrow> Inl Exception
            | Some (JStr t) \<Rightarrow> Inr (dict_set ''title'' (JStr (dataset @ ''/'' @ t)) content)
            | Some v \<Rightarrow> Inr (dict_set ''title'' (JStr (dataset @ ''/'' @ str_of v)) content))
      else Inr content)"

text \<open>
  Lines 332 to 336: \<^verbatim>\<open>del content['assets']['default']\<close> of a Feature, a KeyError passed
  over.
\<close>

definition drop_default_asset :: "(string \<times> json) list \<Rightarrow> pyerror + (string \<times> json) list" where
  "drop_default_asset content =
     (if map_of content ''type'' = Some (JStr ''Feature'')
      then (case map_of content ''assets'' of
              None \<Rightarrow> Inr content
            | Some (JObj assets) \<Rightarrow>
                Inr (dict_set ''assets'' (JObj (dict_del ''default'' assets)) content)
            | Some v \<Rightarrow> Inl Exception)
      else Inr content)"

text \<open>
  Lines 279 to 337: the body of the loop for one dataset. It raises, returns a response, or
  gives the document appended to \<^verbatim>\<open>contents\<close>.
\<close>

definition collection_document ::
  "api \<Rightarrow> request \<Rightarrow> (json \<Rightarrow> string) \<Rightarrow> string list \<Rightarrow> string
     \<Rightarrow> pyerror + (response + (string \<times> json) list)" where
  "collection_document a req str_of dir_tokens dataset =
     (case map_of (stac_collections a) dataset of
        None \<Rightarrow> Inr (Inl (get_exception 404 req ''NotFound'' ''Collection not found''))
      | Some coll \<Rightarrow>
          (case c_plugin coll of
             ProviderConnectionError \<Rightarrow>
               Inr (Inl (get_exception 500 req ''NoApplicableCode''
                           ''connection error (check logs)''))
           | LoadError \<Rightarrow> Inl Exception
           | Provider get_data_path \<Rightarrow>
               (let content = [(''id'', JStr (dataset @ ''-stac'')),
                               (''type'', JStr ''Catalog''),
                               (''stac_version'', JStr ''1.0.0''),
                               (''description'', c_description coll),
                               (''links'', JArr [])]
                in case get_data_path (base_url a @ ''/stac'') dataset [] of
                     ProviderNotFoundError \<Rightarrow>
                       Inr (Inl (get_exception 404 req ''NotFound'' ''resource not found''))
                   | ProviderOtherError \<Rightarrow>
                       Inr (Inl (get_exception 500 req ''NoApplicableCode'' ''data query error''))
                   | File b \<Rightarrow> Inr (Inr content)
                   | Data stac_data \<Rightarrow>
                       and_then (prefix_title str_of dir_tokens dataset
                                   (dict_update content stac_data))
                         (\<lambda>content.
                            case c_links coll of
                              [] \<Rightarrow> Inl Exception
                            | first # _ \<Rightarrow>
                                and_then (if length first > 0
                                          then extend_links content (c_links coll)
                                          else Inr content)
                                  (\<lambda>content. and_then (drop_default_asset content)
                                  (\<lambda>content. Inr (Inr content)))))))"

fun collect_documents ::
  "api \<Rightarrow> request \<Rightarrow> (json \<Rightarrow> string) \<Rightarrow> string list \<Rightarrow> string list
     \<Rightarrow> pyerror + (response + (string \<times> json) list list)" where
  "collect_documents a req str_of dir_tokens [] = Inr (Inr [])"
| "collect_documents a req str_of dir_tokens (dataset # datasets) =
     (case collection_document a req str_of dir_tokens dataset of
        Inl e \<Rightarrow> Inl e
      | Inr (Inl resp) \<Rightarrow> Inr (Inl resp)
      | Inr (Inr content) \<Rightarrow>
          (case collect_documents a req str_of dir_tokens datasets of
             Inl e \<Rightarrow> Inl e
           | Inr (Inl resp) \<Rightarrow> Inr (Inl resp)
           | Inr (Inr contents) \<Rightarrow> Inr (Inr (content # contents))))"

text \<open>Lines 338 to 343: one document is returned bare, any other number in a list.\<close>

fun wrap_contents :: "(string \<times> json) list list \<Rightarrow> json" where
  "wrap_contents [content] = JObj content"
| "wrap_contents contents = JObj [(''collections'', JArr (map JObj contents))]"

definition get_stac_collections ::
  "api \<Rightarrow> request \<Rightarrow> (json \<Rightarrow> string) \<Rightarrow> string \<Rightarrow> pyerror + response" where
  "get_stac_collections a req str_of path =
     (if \<not> is_valid req then Inr (format_exception a)
      else
        (case collect_documents a req str_of (split_str ''/'' path) (selected_datasets a path) of
           Inl e \<Rightarrow> Inl e
         | Inr (Inl resp) \<Rightarrow> Inr resp
         | Inr (Inr contents) \<Rightarrow> Inr (200, Json (wrap_contents contents))))"

section \<open>The link graph of a catalog\<close>

text \<open>
  The path lines 365 and 366 read from a link, when they read one: the link is not a root,
  self or parent link and its \<^verbatim>\<open>href\<close> is a string.
\<close>

definition link_path :: "json \<Rightarrow> string option" where
  "link_path obj =
     (case followed_href obj of
        Inr (Some h) \<Rightarrow> (case href_path h of Inr q \<Rightarrow> Some q | Inl e \<Rightarrow> None)
      | _ \<Rightarrow> None)"

text \<open>The links of the document served at a path, when it is a document other than a Feature.\<close>

definition doc_links :: "api \<Rightarrow> request \<Rightarrow> string \<Rightarrow> json list" where
  "doc_links a req p =
     (case fetch a req p of
        Inr doc \<Rightarrow>
          (case links_of doc of
             Inr (Some l) \<Rightarrow> (case py_iter l of Inr objs \<Rightarrow> objs | Inl e \<Rightarrow> [])
           | _ \<Rightarrow> [])
      | Inl e \<Rightarrow> [])"

text \<open>
  The edges of the catalog: from the path of a document that is no Feature to the path of
  each of its links, root, self and parent links left out. \<open>child_edges\<close> keeps the links
  whose \<^verbatim>\<open>rel\<close> is \<^verbatim>\<open>child\<close>.
\<close>

definition catalog_edges :: "api \<Rightarrow> request \<Rightarrow> (string \<times> string) set" where
  "catalog_edges a req = {(p, q). \<exists>obj \<in> set (doc_links a req p). link_path obj = Some q}"

definition child_edges :: "api \<Rightarrow> request \<Rightarrow> (string \<times> string) set" where
  "child_edges a req =
     {(p, q). \<exists>obj \<in> set (doc_links a req p).
                getitem obj ''rel'' = Inr (JStr ''child'') \<and> link_path obj = Some q}"

definition targets :: "json list \<Rightarrow> string set" where
  "targets links = {q. \<exists>obj \<in> set links. link_path obj = Some q}"

section \<open>Example catalogs\<close>

definition link :: "string \<Rightarrow> string \<Rightarrow> json" where
  "link rel href = JObj [(''rel'', JStr rel), (''href'', JStr href)]"

definition json_request :: request where
  "json_request = \<lparr> is_valid = True, is_html = False, args = [], data = None \<rparr>"

text \<open>
  A collection \<^verbatim>\<open>A\<close> with a catalog \<^verbatim>\<open>A/sub\<close>, whose child is the catalog
  \<^verbatim>\<open>A/sub/deep\<close>, whose item is the Feature \<^verbatim>\<open>A/sub/deep/f\<close>.
\<close>

definition nested_provider :: "string \<Rightarrow> string \<Rightarrow> string \<Rightarrow> provider_result" where
  "nested_provider base path rel =
     (if path = ''A/sub'' then
        Data [(''type'', JStr ''Catalog''), (''id'', JStr ''sub''),
              (''links'', JArr [link ''child'' (base @ ''/A/sub/deep'')])]
      else if path = ''A/sub/deep'' then
        Data [(''type'', JStr ''Catalog''), (''id'', JStr ''deep''),
              (''links'', JArr [link ''item'' (base @ ''/A/sub/deep/f'')])]
      else if path = ''A/sub/deep/f'' then
        Data [(''type'', JStr ''Feature''), (''id'', JStr ''f''), (''links'', JArr [])]
      else ProviderNotFoundError)"

definition one_collection :: "(string \<Rightarrow> string \<Rightarrow> string \<Rightarrow> provider_result) \<Rightarrow> api" where
  "one_collection p =
     \<lparr> base_url = ''http://h'',
       stac_collections =
         [(''A'', \<lparr> c_description = JStr ''a'',
                   c_links = [[(''rel'', JStr ''root''), (''href'', JStr ''http://h/stac'')]],
                   c_plugin = Provider p \<rparr>)],
       title = JStr ''t'', description = JStr ''d'', f_json = ''json'',
       type_json = ''application/json'', type_html = ''text/html'',
       format_exception = (400, Html) \<rparr>"

definition nested_api :: api where
  "nested_api = one_collection nested_provider"

definition nested_feature :: json where
  "nested_feature =
     JObj [(''id'', JStr ''f''), (''type'', JStr ''Feature''), (''stac_version'', JStr ''1.0.0''),
           (''description'', JStr ''a''),
           (''links'', JArr [JObj [(''rel'', JStr ''root''), (''href'', JStr ''http://h/stac'')]])]"

text \<open>A catalog \<^verbatim>\<open>A/loop\<close> whose only link is an item link to itself.\<close>

definition loop_provider :: "string \<Rightarrow> string \<Rightarrow> string \<Rightarrow> provider_result" where
  "loop_provider base path rel =
     (if path = ''A/loop'' then
        Data [(''type'', JStr ''Catalog''), (''id'', JStr ''loop''),
              (''links'', JArr [link ''item'' (base @ ''/A/loop'')])]
      else ProviderNotFoundError)"

definition loop_api :: api where
  "loop_api = one_collection loop_provider"

section \<open>Example geometry and items\<close>

text \<open>
  Modelled from the spec: shapely is not part of the repository. Section 4.3 asks for the
  standard 2D rectangle-intersection test on axis-aligned rectangles given as min-x, min-y,
  max-x, max-y; the rectangles are closed. \<open>plane_shape\<close> reads a GeoJSON Point only.
\<close>

datatype rect = Rect real real real real

fun plane_box :: "json list \<Rightarrow> rect option" where
  "plane_box [a, b, c, d] =
     (case (num_of a, num_of b, num_of c, num_of d) of
        (Some minx, Some miny, Some maxx, Some maxy) \<Rightarrow> Some (Rect minx miny maxx maxy)
      | _ \<Rightarrow> None)"
| "plane_box _ = None"

fun plane_shape :: "json \<Rightarrow> string + rect" where
  "plane_shape (JObj d) =
     (case (map_of d ''type'', map_of d ''coordinates'') of
        (Some (JStr t), Some (JArr [x, y])) \<Rightarrow>
          (if t = ''Point'' then
             (case (num_of x, num_of y) of
                (Some px, Some py) \<Rightarrow> Inr (Rect px py px py)
              | _ \<Rightarrow> Inl ''not a point'')
           else Inl ''not a point'')
      | _ \<Rightarrow> Inl ''not a point'')"
| "plane_shape _ = Inl ''not a point''"

fun plane_intersects :: "rect \<Rightarrow> rect \<Rightarrow> bool" where
  "plane_intersects (Rect ax ay bx by) (Rect cx cy dx dy) =
     (ax \<le> dx \<and> cx \<le> bx \<and> ay \<le> dy \<and> cy \<le> by)"

definition plane_geo :: "rect geo" where
  "plane_geo =
     \<lparr> geo_box = plane_box, geo_shape = plane_shape, geo_intersects = plane_intersects \<rparr>"

definition feature :: "string \<Rightarrow> int list \<Rightarrow> (string \<times> json) list" where
  "feature name bbox =
     [(''type'', JStr ''Feature''), (''id'', JStr name), (''bbox'', JArr (map JInt bbox)),
      (''links'', JArr [])]"

text \<open>The document \<^verbatim>\<open>get_stac_path\<close> serves for such a Feature of collection \<^verbatim>\<open>A\<close>.\<close>

definition served :: "string \<Rightarrow> int list \<Rightarrow> json" where
  "served name bbox =
     JObj [(''id'', JStr name), (''type'', JStr ''Feature''), (''stac_version'', JStr ''1.0.0''),
           (''description'', JStr ''a''),
           (''links'', JArr [JObj [(''rel'', JStr ''root''), (''href'', JStr ''http://h/stac'')]]),
           (''bbox'', JArr (map JInt bbox))]"

text \<open>A collection with the items X, of bbox [5,5,15,15], and Y, of bbox [20,20,30,30].\<close>

definition bbox_provider :: "string \<Rightarrow> string \<Rightarrow> string \<Rightarrow> provider_result" where
  "bbox_provider base path rel =
     (if path = ''A'' then
        Data [(''type'', JStr ''Collection''), (''id'', JStr ''A''), (''title'', JStr ''A''),
              (''links'', JArr [link ''item'' (base @ ''/A/X''), link ''item'' (base @ ''/A/Y'')])]
      else if path = ''A/X'' then Data (feature ''X'' [5, 5, 15, 15])
      else if path = ''A/Y'' then Data (feature ''Y'' [20, 20, 30, 30])
      else ProviderNotFoundError)"

text \<open>A collection with three items of ids c, a and b, in this order.\<close>

definition sort_provider :: "string \<Rightarrow> string \<Rightarrow> string \<Rightarrow> provider_result" where
  "sort_provider base path rel =
     (if path = ''A'' then
        Data [(''type'', JStr ''Collection''), (''id'', JStr ''A''), (''title'', JStr ''A''),
              (''links'', JArr [link ''item'' (base @ ''/A/1''), link ''item'' (base @ ''/A/2''),
                                link ''item'' (base @ ''/A/3'')])]
      else if path = ''A/1'' then Data (feature ''c'' [0, 0, 1, 1])
      else if path = ''A/2'' then Data (feature ''a'' [0, 0, 1, 1])
      else if path = ''A/3'' then Data (feature ''b'' [0, 0, 1, 1])
      else ProviderNotFoundError)"

definition post :: "(string \<times> json) list \<Rightarrow> request" where
  "post body = \<lparr> is_valid = True, is_html = False, args = [], data = Some (JObj body) \<rparr>"

text \<open>Queries and items of the examples.\<close>

definition both_body :: "(string \<times> json) list" where
  "both_body = [(''bbox'', JArr (map JInt [0, 0, 10, 10])),
                (''intersects'', JObj [(''type'', JStr ''Point''), (''coordinates'', JArr [JInt 1, JInt 1])])]"

definition scoped_body :: "(string \<times> json) list" where
  "scoped_body = [(''collections'', JArr [JStr ''A'']), (''datetime'', JStr ''2020-01-01'')]"

definition two_items :: "json list" where
  "two_items = [served ''X'' [5, 5, 15, 15], served ''Y'' [20, 20, 30, 30]]"



definition bbox_body :: "(string \<times> json) list" where
  "bbox_body = [(''bbox'', JArr (map JInt [0, 0, 10, 10]))]"

text \<open>The sort key of an item under a field, when it is a string (\<^verbatim>\<open>''\<close> for a missing field).\<close>

definition field_text :: "string \<Rightarrow> json \<Rightarrow> string option" where
  "field_text f k =
     (case dict_get k (JStr f) (JStr []) of Inr (JStr s) \<Rightarrow> Some s | _ \<Rightarrow> None)"

definition sort_body :: "json \<Rightarrow> (string \<times> json) list" where
  "sort_body direction =
     [(''sortby'', JArr [JObj [(''field'', JStr ''id''), (''direction'', direction)]])]"

definition three_items :: "json list" where
  "three_items = [served ''c'' [0, 0, 1, 1], served ''a'' [0, 0, 1, 1], served ''b'' [0, 0, 1, 1]]"

text \<open>Two items: the first has a bbox, the second has a null geometry and no bbox.\<close>

definition boxed_and_bare :: "json list" where
  "boxed_and_bare =
     [JObj [(''type'', JStr ''Feature''), (''id'', JStr ''a''),
            (''bbox'', JArr (map JInt [0, 0, 1, 1]))],
      JObj [(''type'', JStr ''Feature''), (''id'', JStr ''b''), (''geometry'', JNull)]]"

definition id_sort_body :: "(string \<times> json) list" where
  "id_sort_body = [(''sortby'', JArr [JObj [(''field'', JStr ''id'')]])]"

text \<open>
  Two keys are in ascending order when the first is less than the second, or the second is
  not less than the first.
\<close>

definition ascending :: "json \<Rightarrow> json \<Rightarrow> bool" where
  "ascending a b \<longleftrightarrow> py_lt a b = Some True \<or> py_lt b a = Some False"

text \<open>Two configured collections, A and B, each served as a Collection without links.\<close>

definition named_provider :: "string \<Rightarrow> string \<Rightarrow> string \<Rightarrow> provider_result" where
  "named_provider base path rel =
     (if path = ''A'' \<or> path = ''B'' then
        Data [(''type'', JStr ''Collection''), (''id'', JStr path), (''title'', JStr path)]
      else ProviderNotFoundError)"

definition two_collections :: api where
  "two_collections =
     \<lparr> base_url = ''http://h'',
       stac_collections =
         [(''A'', \<lparr> c_description = JStr ''a'', c_links = [[]],
                   c_plugin = Provider named_provider \<rparr>),
          (''B'', \<lparr> c_description = JStr ''b'', c_links = [[]],
                   c_plugin = Provider named_provider \<rparr>)],
       title = JStr ''t'', description = JStr ''d'', f_json = ''json'',
       type_json = ''application/json'', type_html = ''text/html'',
       format_exception = (400, Html) \<rparr>"

definition listed :: "string \<Rightarrow> string \<Rightarrow> string \<Rightarrow> (string \<times> json) list" where
  "listed name descr shown =
     [(''id'', JStr name), (''type'', JStr ''Collection''), (''stac_version'', JStr ''1.0.0''),
      (''description'', JStr descr), (''links'', JArr []), (''title'', JStr shown)]"

section \<open>Properties of the helpers\<close>

lemma split_str_nonempty: "split_str sep s \<noteq> []"
  by (subst split_str.simps) (auto split: list.splits)

lemma and_then_Inr: "and_then m f = Inr y \<longleftrightarrow> (\<exists>x. m = Inr x \<and> f x = Inr y)"
  by (cases m) auto

lemma comprehension_mem:
  "comprehension f xs = Inr ys \<Longrightarrow> y \<in> set ys \<Longrightarrow> \<exists>x \<in> set xs. f x = Inr (Some y)"
proof (induction xs arbitrary: ys)
  case Nil
  then show ?case by simp
next
  case (Cons x xs)
  then show ?case
    by (auto split: sum.splits option.splits)
qed

lemma mapM_mem: "mapM f xs = Inr ys \<Longrightarrow> y \<in> set ys \<Longrightarrow> \<exists>x \<in> set xs. f x = Inr y"
  unfolding mapM_def
  by (drule comprehension_mem, assumption) (auto simp: and_then_Inr)

lemma next_round_mem:
  assumes "next_round result = Inr recursive" "obj \<in> set recursive"
  shows "\<exists>l \<in> set result. \<exists>objs. py_iter l = Inr objs \<and> obj \<in> set objs"
proof -
  from assms obtain rs where rs: "mapM (\<lambda>r. and_then (py_iter r) (comprehension descended)) result = Inr rs"
    and c: "recursive = concat rs"
    by (auto simp: next_round_def and_then_Inr)
  from c assms(2) obtain ys where ys: "ys \<in> set rs" "obj \<in> set ys" by auto
  from mapM_mem[OF rs ys(1)] obtain l where l: "l \<in> set result"
    "and_then (py_iter l) (comprehension descended) = Inr ys" by auto
  then obtain objs where o: "py_iter l = Inr objs" "comprehension descended objs = Inr ys"
    by (auto simp: and_then_Inr)
  from comprehension_mem[OF o(2) ys(2)] obtain x where "x \<in> set objs" "descended x = Inr (Some obj)"
    by auto
  then have "obj \<in> set objs"
    by (auto simp: descended_def and_then_Inr split: if_splits)
  with l(1) o(1) show ?thesis by auto
qed

section \<open>Termination of the recursive item search\<close>

lemma link_path_I:
  "followed_href r = Inr (Some h) \<Longrightarrow> href_path h = Inr q \<Longrightarrow> link_path r = Some q"
  by (simp add: link_path_def)

lemma finite_targets: "finite (targets links)"
proof -
  have "targets links \<subseteq> (\<lambda>obj. the (link_path obj)) ` set links"
    by (force simp: targets_def)
  then show ?thesis by (rule finite_subset) simp
qed

lemma one_round_path:
  assumes "one_round a req result = Inr (items, Some recursive)" "lv \<in> set ls"
    "comprehension links_of docs = Inr ls" "mapM (fetch a req) paths = Inr docs"
    "mapM href_path hrefs = Inr paths" "comprehension followed_href result = Inr hrefs"
  shows "\<exists>q doc. q \<in> targets result \<and> fetch a req q = Inr doc \<and> links_of doc = Inr (Some lv)"
proof -
  from comprehension_mem[OF assms(3) assms(2)] obtain doc where
    doc: "doc \<in> set docs" "links_of doc = Inr (Some lv)" by auto
  from mapM_mem[OF assms(4) doc(1)] obtain q where q: "q \<in> set paths" "fetch a req q = Inr doc" by auto
  from mapM_mem[OF assms(5) q(1)] obtain hr where hr: "hr \<in> set hrefs" "href_path hr = Inr q" by auto
  from comprehension_mem[OF assms(6) hr(1)] obtain r where
    r: "r \<in> set result" "followed_href r = Inr (Some hr)" by auto
  have "q \<in> targets result"
    using r(1) link_path_I[OF r(2) hr(2)] by (auto simp: targets_def)
  with q(2) doc(2) show ?thesis by auto
qed

lemma one_round_edges:
  assumes "one_round a req result = Inr (items, Some recursive)" "q' \<in> targets recursive"
  shows "\<exists>q \<in> targets result. (q, q') \<in> catalog_edges a req"
proof -
  from assms(1) obtain hrefs paths docs ls where
    h: "comprehension followed_href result = Inr hrefs" and
    p: "mapM href_path hrefs = Inr paths" and
    d: "mapM (fetch a req) paths = Inr docs" and
    l: "comprehension links_of docs = Inr ls" and
    n: "next_round ls = Inr recursive"
    by (auto simp: one_round_def and_then_Inr split: if_splits)
  from assms(2) obtain obj where obj: "obj \<in> set recursive" "link_path obj = Some q'"
    by (auto simp: targets_def)
  from next_round_mem[OF n obj(1)] obtain lv objs where
    lv: "lv \<in> set ls" "py_iter lv = Inr objs" "obj \<in> set objs" by auto
  from one_round_path[OF assms(1) lv(1) l d p h] obtain q doc where
    q: "q \<in> targets result" "fetch a req q = Inr doc" "links_of doc = Inr (Some lv)" by auto
  have "(q, q') \<in> catalog_edges a req"
    using q(2,3) lv(2,3) obj(2) by (auto simp: catalog_edges_def doc_links_def)
  with q(1) show ?thesis by auto
qed

lemma one_round_targets_nonempty:
  assumes "one_round a req result = Inr (items, Some recursive)"
  shows "targets result \<noteq> {}"
proof -
  from assms obtain hrefs paths docs ls where
    h: "comprehension followed_href result = Inr hrefs" and
    p: "mapM href_path hrefs = Inr paths" and
    d: "mapM (fetch a req) paths = Inr docs" and
    l: "comprehension links_of docs = Inr ls" and
    n: "ls \<noteq> []"
    by (auto simp: one_round_def and_then_Inr split: if_splits)
  from n obtain lv where lv: "lv \<in> set ls" by (cases ls) auto
  from one_round_path[OF assms lv l d p h] show ?thesis by auto
qed

lemma rsi_mono:
  "recursiveSearchItems a req d result = Some r \<Longrightarrow> recursiveSearchItems a req (d + k) result = Some r"
proof (induction d arbitrary: result r)
  case 0
  then show ?case by simp
next
  case (Suc d)
  show ?case
  proof (cases "one_round a req result")
    case (Inl e)
    with Suc.prems show ?thesis by simp
  next
    case (Inr pr)
    obtain items nxt where pr: "pr = (items, nxt)" by (cases pr)
    show ?thesis
    proof (cases nxt)
      case None
      with Inr pr Suc.prems show ?thesis by simp
    next
      case (Some recursive)
      with Inr pr Suc.prems obtain r' where
        r': "recursiveSearchItems a req d recursive = Some r'"
        by (auto split: option.splits)
      from Suc.IH[OF r'] have "recursiveSearchItems a req (d + k) recursive = Some r'" .
      with Inr pr Some Suc.prems r' show ?thesis by simp
    qed
  qed
qed

lemma rsi_terminates_wf:
  assumes "wf ((catalog_edges a req)\<inverse>)"
  shows "\<exists>d r. recursiveSearchItems a req d links = Some r"
proof -
  have "wf (max_ext ((catalog_edges a req)\<inverse>))"
    using assms by (rule max_ext_wf)
  then have "\<forall>links. targets links = X \<longrightarrow> (\<exists>d r. recursiveSearchItems a req d links = Some r)" for X
  proof (induction X rule: wf_induct_rule)
    case (less X)
    show ?case
    proof (intro allI impI)
      fix links assume X: "targets links = X"
      show "\<exists>d r. recursiveSearchItems a req d links = Some r"
      proof (cases "one_round a req links")
        case (Inl e)
        then have "recursiveSearchItems a req (Suc 0) links = Some (Inl e)" by simp
        then show ?thesis by blast
      next
        case (Inr pr)
        obtain items nxt where pr: "pr = (items, nxt)" by (cases pr)
        show ?thesis
        proof (cases nxt)
          case None
          with Inr pr have "recursiveSearchItems a req (Suc 0) links = Some (Inr items)" by simp
          then show ?thesis by blast
        next
          case (Some recursive)
          with Inr pr have rd: "one_round a req links = Inr (items, Some recursive)" by simp
          have "(targets recursive, X) \<in> max_ext ((catalog_edges a req)\<inverse>)"
          proof (rule max_extI)
            show "finite (targets recursive)" by (rule finite_targets)
            show "finite X" using X finite_targets by auto
            show "X \<noteq> {}" using one_round_targets_nonempty[OF rd] X by simp
            show "\<exists>xa\<in>X. (x, xa) \<in> (catalog_edges a req)\<inverse>" if "x \<in> targets recursive" for x
              using one_round_edges[OF rd that] X by auto
          qed
          from less.IH[OF this] obtain d r where
            "recursiveSearchItems a req d recursive = Some r" by blast
          then have "\<exists>r'. recursiveSearchItems a req (Suc d) links = Some r'"
            using rd by (cases r) simp_all
          then show ?thesis by blast
        qed
      qed
    qed
  qed
  then show ?thesis by blast
qed

text \<open>
  Claim C2, as amended. In a finite catalog whose links, the root, self and parent links left
  out, form no cycle, the recursive item search returns from every list of links: some
  nesting depth is enough, and every greater depth gives the same result. So the search can
  fail to return only in a catalog with a cycle of links that it follows.
\<close>

theorem acyclic_catalog_terminates:
  assumes "finite (catalog_edges a req)" and "acyclic (catalog_edges a req)"
  shows "\<exists>depth r. \<forall>k. recursiveSearchItems a req (depth + k) links = Some r"
proof -
  have "wf ((catalog_edges a req)\<inverse>)"
    using assms by (rule finite_acyclic_wf_converse)
  from rsi_terminates_wf[OF this] obtain d r where
    "recursiveSearchItems a req d links = Some r" by blast
  then have "\<forall>k. recursiveSearchItems a req (d + k) links = Some r"
    by (simp add: rsi_mono)
  then show ?thesis by blast
qed

subsection \<open>The nested catalog has no cycle\<close>

lemma nested_doc_links:
  "doc_links nested_api json_request p \<noteq> [] \<Longrightarrow> p = ''A/sub'' \<or> p = ''A/sub/deep''"
  by (auto simp: doc_links_def fetch_def get_stac_path_def nested_api_def one_collection_def
      nested_provider_def get_exception_def links_of_def path_content_def json_request_def
      dict_update_def extend_links_def
      split: list.splits option.splits if_splits sum.splits)

lemma nested_doc_links_sub:
  "doc_links nested_api json_request ''A/sub'' =
     [link ''child'' ''http://h/stac/A/sub/deep'', link ''root'' ''http://h/stac'']"
  by code_simp

lemma nested_doc_links_deep:
  "doc_links nested_api json_request ''A/sub/deep'' =
     [link ''item'' ''http://h/stac/A/sub/deep/f'', link ''root'' ''http://h/stac'']"
  by code_simp

lemma nested_link_paths:
  "link_path (link ''child'' ''http://h/stac/A/sub/deep'') = Some ''A/sub/deep''"
  "link_path (link ''item'' ''http://h/stac/A/sub/deep/f'') = Some ''A/sub/deep/f''"
  "link_path (link ''root'' ''http://h/stac'') = None"
  by code_simp+

lemma nested_edges:
  "catalog_edges nested_api json_request =
     {(''A/sub'', ''A/sub/deep''), (''A/sub/deep'', ''A/sub/deep/f'')}"
proof -
  have "(p, q) \<in> catalog_edges nested_api json_request \<longleftrightarrow>
        (p, q) \<in> {(''A/sub'', ''A/sub/deep''), (''A/sub/deep'', ''A/sub/deep/f'')}" for p q
  proof (cases "doc_links nested_api json_request p = []")
    case True
    then have "p \<noteq> ''A/sub''" "p \<noteq> ''A/sub/deep''"
      using nested_doc_links_sub nested_doc_links_deep by auto
    with True show ?thesis by (simp add: catalog_edges_def)
  next
    case False
    from nested_doc_links[OF this] show ?thesis
      by (auto simp: catalog_edges_def nested_doc_links_sub nested_doc_links_deep nested_link_paths)
  qed
  then show ?thesis by auto
qed

lemma nested_acyclic: "acyclic (catalog_edges nested_api json_request)"
proof -
  have "catalog_edges nested_api json_request \<subseteq> measure length"
    unfolding nested_edges by simp
  moreover have "acyclic (measure length :: (string \<times> string) set)"
    by (rule wf_acyclic) simp
  ultimately show ?thesis by (rule acyclic_subset[rotated])
qed

theorem acyclic_catalog_terminates_witness:
  "finite (catalog_edges nested_api json_request) \<and> acyclic (catalog_edges nested_api json_request)
   \<and> (\<exists>depth r. \<forall>k. recursiveSearchItems nested_api json_request (depth + k)
                        [link ''child'' ''http://h/stac/A/sub''] = Some r)"
proof -
  have f: "finite (catalog_edges nested_api json_request)"
    unfolding nested_edges by simp
  from acyclic_catalog_terminates[OF f nested_acyclic] f nested_acyclic show ?thesis by blast
qed

subsection \<open>A cycle of item links\<close>

lemma loop_round:
  "one_round loop_api json_request [link ''item'' ''http://h/stac/A/loop'']
     = Inr ([], Some [link ''item'' ''http://h/stac/A/loop''])"
  by code_simp

lemma loop_doc_links:
  "doc_links loop_api json_request p \<noteq> [] \<Longrightarrow> p = ''A/loop''"
  by (auto simp: doc_links_def fetch_def get_stac_path_def loop_api_def one_collection_def
      loop_provider_def get_exception_def links_of_def path_content_def json_request_def
      dict_update_def extend_links_def
      split: list.splits option.splits if_splits sum.splits)

lemma loop_doc_links_at:
  "doc_links loop_api json_request ''A/loop'' =
     [link ''item'' ''http://h/stac/A/loop'', link ''root'' ''http://h/stac'']"
  by code_simp

lemma loop_rels:
  "getitem (link ''item'' ''http://h/stac/A/loop'') ''rel'' = Inr (JStr ''item'')"
  "getitem (link ''root'' ''http://h/stac'') ''rel'' = Inr (JStr ''root'')"
  by code_simp+

text \<open>
  Claim C2 as stated fails: the catalog \<^verbatim>\<open>A/loop\<close> has no \<^verbatim>\<open>child\<close> link at all, so no
  cycle of \<^verbatim>\<open>child\<close> links, and from its item link the search reaches every nesting depth.
\<close>

theorem item_cycle_never_returns:
  "child_edges loop_api json_request = {}
   \<and> (\<forall>depth. recursiveSearchItems loop_api json_request depth
                  [link ''item'' ''http://h/stac/A/loop''] = None)"
proof
  have "(p, q) \<notin> child_edges loop_api json_request" for p q
  proof (cases "doc_links loop_api json_request p = []")
    case True
    then show ?thesis by (simp add: child_edges_def)
  next
    case False
    from loop_doc_links[OF this] show ?thesis
      by (auto simp: child_edges_def loop_doc_links_at loop_rels)
  qed
  then show "child_edges loop_api json_request = {}" by auto
next
  have "recursiveSearchItems loop_api json_request depth
          [link ''item'' ''http://h/stac/A/loop''] = None" for depth
    by (induction depth) (simp_all add: loop_round)
  then show "\<forall>depth. recursiveSearchItems loop_api json_request depth
                  [link ''item'' ''http://h/stac/A/loop''] = None" by blast
qed

section \<open>Child links below the first round\<close>

lemma nested_round_sub:
  "one_round nested_api json_request [link ''child'' ''http://h/stac/A/sub''] = Inr ([], Some [])"
  by code_simp

lemma empty_round: "one_round a req [] = Inr ([], None)"
  by (simp add: one_round_def mapM_def)

lemma nested_round_deep:
  "one_round nested_api json_request [link ''child'' ''http://h/stac/A/sub/deep'']
     = Inr ([], Some [link ''item'' ''http://h/stac/A/sub/deep/f''])"
  by code_simp

lemma nested_round_item:
  "one_round nested_api json_request [link ''item'' ''http://h/stac/A/sub/deep/f'']
     = Inr ([nested_feature], None)"
  by code_simp

text \<open>
  Claim C1 at the nested catalog. The Feature \<^verbatim>\<open>f\<close> is found from the child link to
  \<^verbatim>\<open>A/sub/deep\<close>, so it is reachable from the child link to \<^verbatim>\<open>A/sub\<close> by a child link and
  an item link; the search from \<^verbatim>\<open>A/sub\<close> returns no Feature, because line 376 compares
  \<^verbatim>\<open>rel\<close> with \<^verbatim>\<open>'chlid'\<close> and so drops the child link of \<^verbatim>\<open>A/sub\<close>.
\<close>

theorem nested_child_not_descended:
  "recursiveSearchItems nested_api json_request (Suc (Suc n))
     [link ''child'' ''http://h/stac/A/sub/deep''] = Some (Inr [nested_feature])
   \<and> recursiveSearchItems nested_api json_request (Suc (Suc n))
       [link ''child'' ''http://h/stac/A/sub''] = Some (Inr [])"
  by (simp add: nested_round_sub nested_round_deep nested_round_item empty_round)

section \<open>The bbox and intersects check (C3)\<close>

lemma keys_dict_del: "fst ` set (dict_del key d) = fst ` set d - {key}"
  by (auto simp: dict_del_def image_iff)

lemma keys_strip_key: "k \<noteq> key \<Longrightarrow> k \<in> fst ` set (strip_key key d) \<longleftrightarrow> k \<in> fst ` set d"
  by (simp add: strip_key_def keys_dict_del split: option.splits)

text \<open>
  Claim C3. When the request is valid and its query was read (the body of a POST is a JSON
  object and a \<^verbatim>\<open>sortby\<close> entry has a first element), a query holding both the key
  \<^verbatim>\<open>bbox\<close> and the key \<^verbatim>\<open>intersects\<close> gets the response 400 with the code
  InvalidParameterValue. The response is the same for every configuration, every provider
  and every bound on the nesting, the bound 0 included: nothing is fetched for it.
\<close>

theorem bbox_and_intersects_rejected:
  assumes "is_valid req" and "get_queries req method = Inr queries"
    and "read_sortby queries = Inr sortby"
    and "''bbox'' \<in> set (map fst queries)" and "''intersects'' \<in> set (map fst queries)"
  shows "get_stac_search a g req depth method =
           Some (Inr (get_exception 400 req ''InvalidParameterValue''
                        ''Only one of either intersects or bbox may be specified''))"
proof -
  let ?q = "strip_key ''limit'' (strip_key ''sortby'' (strip_key ''max_items'' queries))"
  have "''bbox'' \<in> set (map fst ?q)" "''intersects'' \<in> set (map fst ?q)"
    using assms(4,5) by (simp_all add: keys_strip_key)
  then show ?thesis
    using assms(1,2,3) by (simp add: get_stac_search_def search_queries_def Let_def)
qed

theorem bbox_and_intersects_rejected_witness:
  "is_valid (post both_body) \<and> get_queries (post both_body) ''POST'' = Inr both_body
   \<and> read_sortby both_body = Inr (JObj [(''field'', JStr [])])
   \<and> ''bbox'' \<in> set (map fst both_body) \<and> ''intersects'' \<in> set (map fst both_body)
   \<and> get_stac_search (one_collection bbox_provider) plane_geo (post both_body) 0 ''POST'' =
       Some (Inr (400, Json (JObj [(''code'', JStr ''InvalidParameterValue''),
                                   (''description'', JStr ''Only one of either intersects or bbox may be specified'')])))"
proof -
  have 1: "is_valid (post both_body)" by (simp add: post_def)
  have 2: "get_queries (post both_body) ''POST'' = Inr both_body" by (simp add: post_def get_queries_def)
  have 3: "read_sortby both_body = Inr (JObj [(''field'', JStr [])])"
    by (simp add: read_sortby_def both_body_def)
  have 4: "''bbox'' \<in> set (map fst both_body)" by (simp add: both_body_def)
  have 5: "''intersects'' \<in> set (map fst both_body)" by (simp add: both_body_def)
  from bbox_and_intersects_rejected[OF 1 2 3 4 5, of "one_collection bbox_provider" plane_geo 0]
  show ?thesis using 1 2 3 4 5 by (simp add: get_exception_def post_def)
qed

section \<open>No predicate (C4)\<close>

lemma select_all: "select_items [0..<length result] result = result"
proof -
  have "filter (\<lambda>(i, r). i \<in> set [0..<length result]) (enumerate 0 result) = enumerate 0 result"
    by (rule filter_True) (auto simp: in_set_enumerate_eq)
  then show ?thesis by (simp add: select_items_def)
qed

lemma filter_loop_no_predicate:
  "''ids'' \<notin> set criteria \<Longrightarrow> ''bbox'' \<notin> set criteria \<Longrightarrow> ''intersects'' \<notin> set criteria
   \<Longrightarrow> filter_loop g req queries result criteria st = Inr (Inr st)"
  by (induction criteria) (auto simp: apply_filter_def)

text \<open>
  Claim C4. When the query holds none of the keys \<^verbatim>\<open>ids\<close>, \<^verbatim>\<open>bbox\<close> and
  \<^verbatim>\<open>intersects\<close>, whatever its other keys, the loop over the keys leaves the counter empty
  and \<^verbatim>\<open>got_filter\<close> false, the indices kept are all of 0..len(items)-1, and every item
  is passed on to sorting and truncating.
\<close>

theorem no_predicate_selects_all:
  assumes "''ids'' \<notin> set (map fst queries)" and "''bbox'' \<notin> set (map fst queries)"
    and "''intersects'' \<notin> set (map fst queries)"
  shows "filter_loop g req queries result (map fst queries) ([], False) = Inr (Inr ([], False))
         \<and> find_idx_of ([], False) result = [0..<length result]
         \<and> select_items (find_idx_of ([], False) result) result = result
         \<and> filter_and_assemble g req queries sortby max_items result
             = assemble sortby max_items result"
  using assms
  by (simp add: filter_loop_no_predicate find_idx_of_def select_all filter_and_assemble_def)

theorem no_predicate_selects_all_witness:
  "''ids'' \<notin> set (map fst scoped_body) \<and> ''bbox'' \<notin> set (map fst scoped_body)
   \<and> ''intersects'' \<notin> set (map fst scoped_body)
   \<and> filter_loop plane_geo json_request scoped_body two_items (map fst scoped_body) ([], False)
       = Inr (Inr ([], False))
   \<and> find_idx_of ([], False) two_items = [0..<length two_items]
   \<and> select_items (find_idx_of ([], False) two_items) two_items = two_items"
proof -
  have 1: "''ids'' \<notin> set (map fst scoped_body)" by (simp add: scoped_body_def)
  have 2: "''bbox'' \<notin> set (map fst scoped_body)" by (simp add: scoped_body_def)
  have 3: "''intersects'' \<notin> set (map fst scoped_body)" by (simp add: scoped_body_def)
  from no_predicate_selects_all[OF 1 2 3, where g = plane_geo and req = json_request
      and result = two_items and sortby = JNull and max_items = JNull] 1 2 3
  show ?thesis by (simp add: select_all)
qed

section \<open>The union of the filters (C5)\<close>














section \<open>The bbox filter (C8)\<close>

lemma comprehension_Some_length:
  "comprehension (\<lambda>x. and_then (f x) (\<lambda>y. Inr (Some y))) xs = Inr ys
   \<Longrightarrow> length ys = length xs \<and> (\<forall>i < length xs. f (xs ! i) = Inr (ys ! i))"
proof (induction xs arbitrary: ys)
  case Nil
  then show ?case by simp
next
  case (Cons x xs)
  from Cons.prems obtain y ys' where y: "f x = Inr y"
    and r: "comprehension (\<lambda>x. and_then (f x) (\<lambda>y. Inr (Some y))) xs = Inr ys'"
    and ys: "ys = y # ys'"
    by (cases "f x") (auto split: sum.splits)
  from Cons.IH[OF r] y ys show ?case
    by (auto simp: nth_Cons split: nat.splits)
qed

lemma mapM_nth:
  "mapM f xs = Inr ys \<Longrightarrow> length ys = length xs \<and> (\<forall>i < length xs. f (xs ! i) = Inr (ys ! i))"
  unfolding mapM_def by (rule comprehension_Some_length)

lemma true_indices_iff: "i \<in> set (true_indices bs) \<longleftrightarrow> i < length bs \<and> bs ! i"
  by (auto simp: true_indices_def in_set_enumerate_eq image_iff)

lemma bbox_found_iff:
  assumes "bbox_found g queries result = Inr idx"
  shows "\<exists>qb b. map_of queries ''bbox'' = Some qb \<and> make_box g qb = Inr b
           \<and> (\<forall>i. i \<in> set idx \<longleftrightarrow>
                  i < length result
                  \<and> (\<exists>v bi. getitem (result ! i) ''bbox'' = Inr v \<and> make_box g v = Inr bi
                             \<and> geo_intersects g b bi))"
proof -
  from assms obtain qb b vs bs where
    qb: "getitem (JObj queries) ''bbox'' = Inr qb" and
    b: "make_box g qb = Inr b" and
    vs: "mapM (\<lambda>obj. getitem obj ''bbox'') result = Inr vs" and
    bs: "mapM (make_box g) vs = Inr bs" and
    idx: "idx = true_indices (map (\<lambda>x. geo_intersects g b x) bs)"
    unfolding bbox_found_def and_then_Inr by auto
  from qb have q: "map_of queries ''bbox'' = Some qb" by (simp split: option.splits)
  from mapM_nth[OF vs] have lv: "length vs = length result"
    and nv: "\<And>i. i < length result \<Longrightarrow> getitem (result ! i) ''bbox'' = Inr (vs ! i)" by auto
  from mapM_nth[OF bs] lv have lb: "length bs = length result"
    and nb: "\<And>i. i < length result \<Longrightarrow> make_box g (vs ! i) = Inr (bs ! i)" by auto
  have "i \<in> set idx \<longleftrightarrow>
          i < length result
          \<and> (\<exists>v bi. getitem (result ! i) ''bbox'' = Inr v \<and> make_box g v = Inr bi
                     \<and> geo_intersects g b bi)" for i
  proof (cases "i < length result")
    case True
    with nv[OF True] nb[OF True] lb show ?thesis
      by (auto simp: idx true_indices_iff)
  next
    case False
    with lb show ?thesis by (simp add: idx true_indices_iff)
  qed
  with q b show ?thesis by blast
qed

lemma bbox_scenario_round:
  "one_round (one_collection bbox_provider) (post bbox_body)
     [link ''item'' ''http://h/stac/A/X'', link ''item'' ''http://h/stac/A/Y'',
      link ''root'' ''http://h/stac'']
   = Inr (two_items, None)"
  by code_simp

lemma bbox_scenario_scope:
  "and_then (with_collections (one_collection bbox_provider) (post bbox_body) bbox_body)
     (\<lambda>queries. and_then (collection_links (one_collection bbox_provider) (post bbox_body) queries)
                    (\<lambda>links. Inr (queries, links)))
   = Inr (bbox_body @ [(''collections'', JArr [JStr ''A''])],
          [JArr [link ''item'' ''http://h/stac/A/X'', link ''item'' ''http://h/stac/A/Y'',
                 link ''root'' ''http://h/stac'']])"
  by code_simp

lemma bbox_scenario_filter:
  "filter_and_assemble plane_geo (post bbox_body)
     (bbox_body @ [(''collections'', JArr [JStr ''A''])])
     (JObj [(''field'', JStr [])]) (JInt (- 1)) two_items
   = Inr (feature_collection [served ''X'' [5, 5, 15, 15]])"
  by code_simp

lemma search_steps:
  assumes "is_valid req" and "get_queries req method = Inr q0" and "read_sortby q0 = Inr sortby"
    and "strip_key ''limit'' (strip_key ''sortby'' (strip_key ''max_items'' q0)) = q"
    and "''bbox'' \<notin> fst ` set q \<or> ''intersects'' \<notin> fst ` set q"
    and "and_then (with_collections a req q)
           (\<lambda>queries. and_then (collection_links a req queries) (\<lambda>links. Inr (queries, links)))
         = Inr (q', ls)"
    and "search_items a req depth ls = Some (Inr result)"
  shows "get_stac_search a g req depth method
           = Some (filter_and_assemble g req q' sortby (read_max_items q0) result)"
  using assms by (auto simp: get_stac_search_def search_queries_def Let_def)

lemma search_items_leaf:
  "one_round a req links = Inr (items, None)
   \<Longrightarrow> search_items a req (Suc n) [JArr links] = Some (Inr items)"
  by simp

lemma bbox_scenario_query:
  "is_valid (post bbox_body)"
  "get_queries (post bbox_body) ''POST'' = Inr bbox_body"
  "read_sortby bbox_body = Inr (JObj [(''field'', JStr [])])"
  "read_max_items bbox_body = JInt (- 1)"
  "strip_key ''limit'' (strip_key ''sortby'' (strip_key ''max_items'' bbox_body)) = bbox_body"
  by code_simp+

lemma bbox_scenario_keys: "''bbox'' \<notin> fst ` set bbox_body \<or> ''intersects'' \<notin> fst ` set bbox_body"
  by (simp add: bbox_body_def)

lemma bbox_scenario:
  "get_stac_search (one_collection bbox_provider) plane_geo (post bbox_body) (Suc n) ''POST''
     = Some (Inr (feature_collection [served ''X'' [5, 5, 15, 15]]))"
  using search_steps[OF bbox_scenario_query(1,2,3,5) bbox_scenario_keys bbox_scenario_scope
      search_items_leaf[OF bbox_scenario_round], of plane_geo n]
  by (simp add: bbox_scenario_query(4) bbox_scenario_filter)

text \<open>
  Claim C8. When the \<^verbatim>\<open>bbox\<close> filter ends normally, the query has a \<^verbatim>\<open>bbox\<close> from which
  the geometry library made a rectangle, and the filter finds exactly the items from whose
  own \<^verbatim>\<open>bbox\<close> the library made a rectangle that the query's rectangle intersects. With
  the rectangles of the plane: for the query bbox [0,0,10,10] the search returns the item X,
  of bbox [5,5,15,15], and not the item Y, of bbox [20,20,30,30].
\<close>

theorem bbox_filter_matches_intersecting:
  "(bbox_found g queries result = Inr idx \<longrightarrow>
      (\<exists>qb b. map_of queries ''bbox'' = Some qb \<and> make_box g qb = Inr b
           \<and> (\<forall>i. i \<in> set idx \<longleftrightarrow>
                  i < length result
                  \<and> (\<exists>v bi. getitem (result ! i) ''bbox'' = Inr v \<and> make_box g v = Inr bi
                             \<and> geo_intersects g b bi))))
   \<and> get_stac_search (one_collection bbox_provider) plane_geo (post bbox_body) (Suc n) ''POST''
       = Some (Inr (feature_collection [served ''X'' [5, 5, 15, 15]]))
   \<and> make_box plane_geo (JArr (map JInt [0, 0, 10, 10])) = Inr (Rect 0 0 10 10)
   \<and> make_box plane_geo (JArr (map JInt [5, 5, 15, 15])) = Inr (Rect 5 5 15 15)
   \<and> make_box plane_geo (JArr (map JInt [20, 20, 30, 30])) = Inr (Rect 20 20 30 30)
   \<and> plane_intersects (Rect 0 0 10 10) (Rect 5 5 15 15)
   \<and> \<not> plane_intersects (Rect 0 0 10 10) (Rect 20 20 30 30)"
proof -
  have "make_box plane_geo (JArr (map JInt [0, 0, 10, 10])) = Inr (Rect 0 0 10 10)"
    "make_box plane_geo (JArr (map JInt [5, 5, 15, 15])) = Inr (Rect 5 5 15 15)"
    "make_box plane_geo (JArr (map JInt [20, 20, 30, 30])) = Inr (Rect 20 20 30 30)"
    by (simp_all add: make_box_def plane_geo_def)
  moreover have "plane_intersects (Rect 0 0 10 10) (Rect 5 5 15 15)"
    "\<not> plane_intersects (Rect 0 0 10 10) (Rect 20 20 30 30)"
    by simp_all
  ultimately show ?thesis
    using bbox_found_iff[of g queries result idx] bbox_scenario[of n] by blast
qed

lemma bbox_found_two_items: "bbox_found plane_geo bbox_body two_items = Inr [0]"
  by code_simp

theorem bbox_filter_matches_intersecting_witness:
  "bbox_found plane_geo bbox_body two_items = Inr [0]
   \<and> (\<exists>qb b. map_of bbox_body ''bbox'' = Some qb \<and> make_box plane_geo qb = Inr b
           \<and> (\<forall>i. i \<in> set [0] \<longleftrightarrow>
                  i < length two_items
                  \<and> (\<exists>v bi. getitem (two_items ! i) ''bbox'' = Inr v
                             \<and> make_box plane_geo v = Inr bi
                             \<and> geo_intersects plane_geo b bi)))"
  using bbox_filter_matches_intersecting[where g = plane_geo and queries = bbox_body
      and result = two_items and idx = "[0]" and n = 0] bbox_found_two_items
  by blast

section \<open>Truncation (C6)\<close>

lemma insert_sorted_length: "insert_sorted x ys = Some zs \<Longrightarrow> length zs = Suc (length ys)"
  by (induction ys arbitrary: zs) (auto split: option.splits bool.splits)

lemma sort_pairs_length: "sort_pairs acc xs = Some zs \<Longrightarrow> length zs = length acc + length xs"
proof (induction xs arbitrary: acc zs)
  case Nil
  then show ?case by simp
next
  case (Cons x xs)
  from Cons.prems obtain acc' where i: "insert_sorted x acc = Some acc'"
    and s: "sort_pairs acc' xs = Some zs" by (auto split: option.splits)
  from Cons.IH[OF s] insert_sorted_length[OF i] show ?case by simp
qed

lemma mapM_length: "mapM f xs = Inr ys \<Longrightarrow> length ys = length xs"
  unfolding mapM_def
  by (induction xs arbitrary: ys) (auto split: sum.splits option.splits simp: and_then_Inr)

lemma py_sorted_length: "py_sorted key xs = Inr s \<Longrightarrow> length s = length xs"
proof -
  assume "py_sorted key xs = Inr s"
  then obtain keys ps where k: "mapM key xs = Inr keys"
    and p: "sort_pairs [] (zip keys xs) = Some ps" and s: "s = map snd ps"
    by (auto simp: py_sorted_def and_then_Inr split: option.splits)
  from sort_pairs_length[OF p] mapM_length[OF k] s show ?thesis by simp
qed

text \<open>
  Claim C6. When sorting the matched items does not raise, the response for
  \<^verbatim>\<open>max_items\<close> = n with n \<ge> 0 is a FeatureCollection of min(n, number of matched items)
  features, and for \<^verbatim>\<open>max_items\<close> = -1 of as many features as there are matched items.
\<close>

theorem truncation_law:
  assumes "py_sorted (sort_key_of sortby) matched = Inr s"
  shows "(0 \<le> n \<longrightarrow>
           (\<exists>features. assemble sortby (JInt n) matched = Inr (feature_collection features)
                        \<and> length features = min (nat n) (length matched)))
         \<and> (\<exists>features. assemble sortby (JInt (- 1)) matched = Inr (feature_collection features)
                        \<and> length features = length matched)"
proof -
  have l: "length s = length matched" using assms by (rule py_sorted_length)
  have "assemble sortby (JInt n) matched = Inr (feature_collection (take (nat n) s))" if "0 \<le> n"
    using that assms by (simp add: assemble_def)
  moreover have "assemble sortby (JInt (- 1)) matched = Inr (feature_collection s)"
    using assms by (simp add: assemble_def)
  ultimately show ?thesis using l by (auto simp: min_def)
qed

lemma three_items_sorted:
  "py_sorted (sort_key_of (JObj [(''field'', JStr ''id'')])) three_items
     = Inr [served ''a'' [0, 0, 1, 1], served ''b'' [0, 0, 1, 1], served ''c'' [0, 0, 1, 1]]"
  by code_simp

theorem truncation_law_witness:
  "py_sorted (sort_key_of (JObj [(''field'', JStr ''id'')])) three_items
     = Inr [served ''a'' [0, 0, 1, 1], served ''b'' [0, 0, 1, 1], served ''c'' [0, 0, 1, 1]]
   \<and> (\<exists>features. assemble (JObj [(''field'', JStr ''id'')]) (JInt 2) three_items
                      = Inr (feature_collection features)
                    \<and> length features = min (nat 2) (length three_items))
   \<and> (\<exists>features. assemble (JObj [(''field'', JStr ''id'')]) (JInt (- 1)) three_items
                      = Inr (feature_collection features)
                    \<and> length features = length three_items)"
  using truncation_law[OF three_items_sorted, of 2] three_items_sorted by simp


section \<open>Sorting by a field of strings\<close>

definition keyed :: "(json \<Rightarrow> string) \<Rightarrow> (json \<times> json) list \<Rightarrow> bool" where
  "keyed t ps \<longleftrightarrow> (\<forall>p \<in> set ps. fst p = JStr (t (snd p)))"

lemma insert_sorted_keyed:
  assumes "keyed t (p # ps)"
  shows "\<exists>qs. insert_sorted p ps = Some qs \<and> mset qs = mset (p # ps)
           \<and> (sorted (map (\<lambda>q. t (snd q)) ps) \<longrightarrow> sorted (map (\<lambda>q. t (snd q)) qs))"
  using assms
proof (induction ps)
  case Nil
  then show ?case by simp
next
  case (Cons y ps)
  from Cons.prems have kp: "fst p = JStr (t (snd p))" and ky: "fst y = JStr (t (snd y))"
    and k': "keyed t (p # ps)" by (auto simp: keyed_def)
  show ?case
  proof (cases "t (snd p) < t (snd y)")
    case True
    then have "insert_sorted p (y # ps) = Some (p # y # ps)"
      using kp ky by simp
    moreover have "sorted (map (\<lambda>q. t (snd q)) (y # ps))
        \<longrightarrow> sorted (map (\<lambda>q. t (snd q)) (p # y # ps))"
      using True by (auto simp: less_imp_le)
    ultimately show ?thesis by simp
  next
    case False
    from Cons.IH[OF k'] obtain qs where qs: "insert_sorted p ps = Some qs"
      "mset qs = mset (p # ps)"
      "sorted (map (\<lambda>q. t (snd q)) ps) \<longrightarrow> sorted (map (\<lambda>q. t (snd q)) qs)" by blast
    from False kp ky qs(1) have i: "insert_sorted p (y # ps) = Some (y # qs)" by simp
    have m: "mset (y # qs) = mset (p # y # ps)" using qs(2) by simp
    have "sorted (map (\<lambda>q. t (snd q)) (y # qs))" if s: "sorted (map (\<lambda>q. t (snd q)) (y # ps))"
    proof -
      from s qs(3) have "sorted (map (\<lambda>q. t (snd q)) qs)" by simp
      moreover have "t (snd y) \<le> t (snd q)" if "q \<in> set qs" for q
      proof -
        from that qs(2) have "q \<in> set (p # ps)" by (metis set_mset_mset)
        then show ?thesis using s False by auto
      qed
      ultimately show ?thesis by auto
    qed
    with i m show ?thesis by blast
  qed
qed

lemma sort_pairs_keyed:
  assumes "keyed t acc" "keyed t xs" "sorted (map (\<lambda>q. t (snd q)) acc)"
  shows "\<exists>qs. sort_pairs acc xs = Some qs \<and> mset qs = mset acc + mset xs
           \<and> sorted (map (\<lambda>q. t (snd q)) qs)"
  using assms
proof (induction xs arbitrary: acc)
  case Nil
  then show ?case by simp
next
  case (Cons x xs)
  from Cons.prems have kx: "keyed t (x # acc)" and kxs: "keyed t xs"
    by (auto simp: keyed_def)
  from insert_sorted_keyed[OF kx] Cons.prems(3) obtain acc' where
    a: "insert_sorted x acc = Some acc'" "mset acc' = mset (x # acc)"
       "sorted (map (\<lambda>q. t (snd q)) acc')" by blast
  from a(2) kx have ka: "keyed t acc'"
    unfolding keyed_def by (metis set_mset_mset)
  from Cons.IH[OF ka kxs a(3)] obtain qs where
    "sort_pairs acc' xs = Some qs" "mset qs = mset acc' + mset xs"
    "sorted (map (\<lambda>q. t (snd q)) qs)" by blast
  with a show ?case by simp
qed

lemma mapM_total: "(\<forall>x \<in> set xs. f x = Inr (h x)) \<Longrightarrow> mapM f xs = Inr (map h xs)"
  unfolding mapM_def by (induction xs) simp_all

lemma field_text_key:
  assumes "getitem sortby ''field'' = Inr (JStr f)" "field_text f k \<noteq> None"
  shows "sort_key_of sortby k = Inr (JStr (the (field_text f k)))"
  using assms
  by (auto simp: sort_key_of_def field_text_def split: sum.splits json.splits)

lemma py_sorted_strings:
  assumes "getitem sortby ''field'' = Inr (JStr f)"
    and "\<forall>k \<in> set matched. field_text f k \<noteq> None"
  shows "\<exists>s. py_sorted (sort_key_of sortby) matched = Inr s \<and> mset s = mset matched
           \<and> sorted (map (\<lambda>k. the (field_text f k)) s)"
proof -
  let ?t = "\<lambda>k. the (field_text f k)"
  let ?keys = "map (\<lambda>k. JStr (?t k)) matched"
  have k: "mapM (sort_key_of sortby) matched = Inr ?keys"
    by (rule mapM_total) (use assms field_text_key in blast)
  have kz: "keyed ?t (zip ?keys matched)"
    by (auto simp: keyed_def zip_map1 in_set_zip)
  from sort_pairs_keyed[of ?t "[]", OF _ kz] obtain qs where
    qs: "sort_pairs [] (zip ?keys matched) = Some qs" "mset qs = mset (zip ?keys matched)"
        "sorted (map (\<lambda>q. ?t (snd q)) qs)" by (auto simp: keyed_def)
  have "mset (map snd qs) = mset (map snd (zip ?keys matched))"
    using qs(2) by (metis mset_map)
  then have m: "mset (map snd qs) = mset matched" by simp
  have "py_sorted (sort_key_of sortby) matched = Inr (map snd qs)"
    using k qs(1) by (simp add: py_sorted_def)
  with m qs(3) show ?thesis by (auto simp: comp_def)
qed
lemma sort_scenario_round:
  "one_round (one_collection sort_provider) (post id_sort_body)
     [link ''item'' ''http://h/stac/A/1'', link ''item'' ''http://h/stac/A/2'',
      link ''item'' ''http://h/stac/A/3'', link ''root'' ''http://h/stac'']
   = Inr (three_items, None)"
  by code_simp

lemma sort_scenario_scope:
  "and_then (with_collections (one_collection sort_provider) (post id_sort_body) [])
     (\<lambda>queries. and_then (collection_links (one_collection sort_provider) (post id_sort_body) queries)
                    (\<lambda>links. Inr (queries, links)))
   = Inr ([(''collections'', JArr [JStr ''A''])],
          [JArr [link ''item'' ''http://h/stac/A/1'', link ''item'' ''http://h/stac/A/2'',
                 link ''item'' ''http://h/stac/A/3'', link ''root'' ''http://h/stac'']])"
  by code_simp

lemma sort_scenario_filter:
  "filter_and_assemble plane_geo (post id_sort_body) [(''collections'', JArr [JStr ''A''])]
     (JObj [(''field'', JStr ''id'')]) (JInt (- 1)) three_items
   = Inr (feature_collection
            [served ''a'' [0, 0, 1, 1], served ''b'' [0, 0, 1, 1], served ''c'' [0, 0, 1, 1]])"
  by code_simp

lemma sort_scenario_query:
  "is_valid (post id_sort_body)"
  "get_queries (post id_sort_body) ''POST'' = Inr id_sort_body"
  "read_sortby id_sort_body = Inr (JObj [(''field'', JStr ''id'')])"
  "strip_key ''limit'' (strip_key ''sortby'' (strip_key ''max_items'' id_sort_body)) = []"
  "read_max_items id_sort_body = JInt (- 1)"
  by code_simp+

lemma sort_scenario:
  "get_stac_search (one_collection sort_provider) plane_geo (post id_sort_body) (Suc n) ''POST''
     = Some (Inr (feature_collection
          [served ''a'' [0, 0, 1, 1], served ''b'' [0, 0, 1, 1], served ''c'' [0, 0, 1, 1]]))"
  using search_steps[OF sort_scenario_query(1,2,3,4) _ sort_scenario_scope
      search_items_leaf[OF sort_scenario_round], of plane_geo n]
  by (simp add: sort_scenario_query(5) sort_scenario_filter)

text \<open>
  Claim C7, as amended. When the field of \<^verbatim>\<open>sortby\<close> is a string and the value of every
  matched item under it is a string (\<^verbatim>\<open>''\<close> standing for a missing field), sorting does not
  raise and gives the matched items in ascending order of that value; with \<^verbatim>\<open>max_items\<close>
  = -1 they are the features of the response. The search for \<^verbatim>\<open>sortby\<close> on the field id
  over the items of ids c, a, b returns them in the order a, b, c.
\<close>

theorem sorted_by_string_field:
  assumes "getitem sortby ''field'' = Inr (JStr f)"
    and "\<forall>k \<in> set matched. field_text f k \<noteq> None"
  shows "(\<exists>s. py_sorted (sort_key_of sortby) matched = Inr s \<and> mset s = mset matched
             \<and> sorted (map (\<lambda>k. the (field_text f k)) s)
             \<and> assemble sortby (JInt (- 1)) matched = Inr (feature_collection s))
         \<and> get_stac_search (one_collection sort_provider) plane_geo (post id_sort_body) (Suc n)
               ''POST''
             = Some (Inr (feature_collection
                  [served ''a'' [0, 0, 1, 1], served ''b'' [0, 0, 1, 1], served ''c'' [0, 0, 1, 1]]))"
proof -
  from py_sorted_strings[OF assms] obtain s where
    s: "py_sorted (sort_key_of sortby) matched = Inr s" "mset s = mset matched"
       "sorted (map (\<lambda>k. the (field_text f k)) s)" by blast
  from s(1) have "assemble sortby (JInt (- 1)) matched = Inr (feature_collection s)"
    by (simp add: assemble_def)
  with s sort_scenario show ?thesis by blast
qed

lemma three_items_texts:
  "map (field_text ''id'') three_items = [Some ''c'', Some ''a'', Some ''b'']"
  by code_simp

theorem sorted_by_string_field_witness:
  "getitem (JObj [(''field'', JStr ''id'')]) ''field'' = Inr (JStr ''id'')
   \<and> map (field_text ''id'') three_items = [Some ''c'', Some ''a'', Some ''b'']
   \<and> (\<exists>s. py_sorted (sort_key_of (JObj [(''field'', JStr ''id'')])) three_items = Inr s
           \<and> mset s = mset three_items
           \<and> sorted (map (\<lambda>k. the (field_text ''id'' k)) s)
           \<and> assemble (JObj [(''field'', JStr ''id'')]) (JInt (- 1)) three_items
               = Inr (feature_collection s))"
proof -
  have 1: "getitem (JObj [(''field'', JStr ''id'')]) ''field'' = Inr (JStr ''id'')" by simp
  have "\<forall>x \<in> set (map (field_text ''id'') three_items). x \<noteq> None"
    unfolding three_items_texts by simp
  then have 2: "\<forall>k \<in> set three_items. field_text ''id'' k \<noteq> None" by simp
  from sorted_by_string_field[OF 1 2, of 0] 1 three_items_texts show ?thesis by blast
qed

text \<open>
  Claim C7 as stated fails: of two matched items, the first has a list of numbers under the
  field bbox and the second lacks the field, so its key is \<^verbatim>\<open>''\<close>; comparing the two keys
  raises, and so does the assembly.
\<close>

theorem missing_field_beside_lists_raises:
  "dict_get (boxed_and_bare ! 0) (JStr ''bbox'') (JStr []) = Inr (JArr (map JInt [0, 0, 1, 1]))
   \<and> dict_get (boxed_and_bare ! 1) (JStr ''bbox'') (JStr []) = Inr (JStr [])
   \<and> py_sorted (sort_key_of (JObj [(''field'', JStr ''bbox'')])) boxed_and_bare = Inl Exception
   \<and> assemble (JObj [(''field'', JStr ''bbox'')]) (JInt (- 1)) boxed_and_bare = Inl Exception"
  by code_simp

section \<open>The direction of sortby\<close>

lemma sort_key_same_field:
  "getitem s ''field'' = getitem s' ''field'' \<Longrightarrow> sort_key_of s = sort_key_of s'"
  by (rule ext) (simp add: sort_key_of_def)

lemma map_of_dict_set: "map_of (dict_set k v q) k' = (if k' = k then Some v else map_of q k')"
  by (induction q) auto

lemma dict_del_dict_set: "dict_del k (dict_set k v q) = dict_del k q"
  by (induction q) (auto simp: dict_del_def)

lemma dict_del_dict_set_other:
  "key \<noteq> k \<Longrightarrow> dict_del key (dict_set k v q) = dict_set k v (dict_del key q)"
  by (induction q) (auto simp: dict_del_def)

lemma strip_key_dict_set_other:
  "key \<noteq> k \<Longrightarrow> strip_key key (dict_set k v q) = dict_set k v (strip_key key q)"
  by (simp add: strip_key_def map_of_dict_set dict_del_dict_set_other split: option.splits)

lemma strip_key_dict_set:
  "v \<noteq> JNull \<Longrightarrow> strip_key k (dict_set k v q) = dict_del k q"
  by (simp add: strip_key_def map_of_dict_set dict_del_dict_set)

lemma search_queries_same_field:
  assumes "getitem s ''field'' = getitem s' ''field''"
  shows "search_queries a g req depth (dict_set ''sortby'' (JArr (s # xs)) q)
       = search_queries a g req depth (dict_set ''sortby'' (JArr (s' # xs')) q)"
proof -
  note k = sort_key_same_field[OF assms]
  have a: "assemble s m r = assemble s' m r" for m r
    by (simp add: assemble_def k)
  have fa: "filter_and_assemble g req q s m r = filter_and_assemble g req q s' m r" for q m r
    by (simp add: filter_and_assemble_def a cong: sum.case_cong)
  show ?thesis
    by (simp add: search_queries_def read_sortby_def read_max_items_def map_of_dict_set
        strip_key_dict_set_other strip_key_dict_set fa Let_def
        split: sum.splits option.splits prod.splits)
qed

lemma insert_sorted_ascending:
  "insert_sorted x ys = Some zs \<Longrightarrow> successively ascending (map fst ys)
   \<Longrightarrow> successively ascending (map fst zs)
       \<and> (\<exists>z zs'. zs = z # zs' \<and> (z = x \<or> (\<exists>ys'. ys = z # ys')))"
proof (induction ys arbitrary: zs)
  case Nil
  then show ?case by (cases x) auto
next
  case (Cons y ys)
  show ?case
  proof (cases "py_lt (fst x) (fst y)")
    case None
    with Cons.prems show ?thesis by simp
  next
    case (Some b)
    show ?thesis
    proof (cases b)
      case True
      with Some Cons.prems have "zs = x # y # ys" by simp
      with Some True Cons.prems(2) show ?thesis by (simp add: ascending_def)
    next
      case False
      with Some Cons.prems obtain zs' where
        i: "insert_sorted x ys = Some zs'" and zs: "zs = y # zs'" by auto
      from Cons.prems(2) have "successively ascending (map fst ys)"
        by (cases ys) simp_all
      from Cons.IH[OF i this] obtain z zs'' where
        s: "successively ascending (map fst zs')" and z: "zs' = z # zs''"
          "z = x \<or> (\<exists>ys'. ys = z # ys')" by blast
      have "ascending (fst y) (fst z)"
      proof (cases "z = x")
        case True
        with Some False show ?thesis by (simp add: ascending_def)
      next
        case False
        with z(2) obtain ys' where "ys = z # ys'" by blast
        with Cons.prems(2) show ?thesis by simp
      qed
      with s z(1) zs show ?thesis by simp
    qed
  qed
qed

lemma sort_pairs_ascending:
  "sort_pairs acc xs = Some zs \<Longrightarrow> successively ascending (map fst acc)
   \<Longrightarrow> successively ascending (map fst zs)"
proof (induction xs arbitrary: acc)
  case Nil
  then show ?case by simp
next
  case (Cons x xs)
  from Cons.prems(1) obtain acc' where i: "insert_sorted x acc = Some acc'"
    and s: "sort_pairs acc' xs = Some zs" by (auto split: option.splits)
  from insert_sorted_ascending[OF i Cons.prems(2)] Cons.IH[OF s] show ?case by blast
qed

lemma insert_sorted_set: "insert_sorted x ys = Some zs \<Longrightarrow> set zs = insert x (set ys)"
  by (induction ys arbitrary: zs) (auto split: option.splits bool.splits)

lemma sort_pairs_set: "sort_pairs acc xs = Some zs \<Longrightarrow> set zs = set acc \<union> set xs"
proof (induction xs arbitrary: acc)
  case Nil
  then show ?case by simp
next
  case (Cons x xs)
  from Cons.prems(1) obtain acc' where i: "insert_sorted x acc = Some acc'"
    and s: "sort_pairs acc' xs = Some zs" by (auto split: option.splits)
  from insert_sorted_set[OF i] Cons.IH[OF s] show ?case by auto
qed

lemma mapM_pairs:
  "(\<forall>p \<in> set ps. f (snd p) = Inr (fst p)) \<Longrightarrow> mapM f (map snd ps) = Inr (map fst ps)"
  unfolding mapM_def by (induction ps) simp_all

lemma py_take_is_take: "py_take m xs = Inr ys \<Longrightarrow> \<exists>k. ys = take k xs"
proof (cases m)
  case JNull
  assume "py_take m xs = Inr ys"
  with JNull have "ys = take (length xs) xs" by simp
  then show ?thesis by blast
qed (auto split: if_splits)

lemma successively_take: "successively P xs \<Longrightarrow> successively P (take k xs)"
proof -
  assume "successively P xs"
  then have "successively P (take k xs @ drop k xs)" by simp
  then show ?thesis unfolding successively_append_iff by blast
qed

lemma assemble_ascending:
  assumes "assemble sortby max_items result = Inr (feature_collection features)"
  shows "\<exists>keys. mapM (sort_key_of sortby) features = Inr keys \<and> successively ascending keys"
proof -
  from assms obtain s fs where s: "py_sorted (sort_key_of sortby) result = Inr s"
    and t: "py_take (if py_eq max_items (JInt (- 1)) then JInt (int (length s)) else max_items) s
            = Inr fs"
    and f: "feature_collection fs = feature_collection features"
    unfolding assemble_def and_then_Inr by auto
  from f have fs: "fs = features" by (simp add: feature_collection_def)
  from s obtain keys ps where k: "mapM (sort_key_of sortby) result = Inr keys"
    and p: "sort_pairs [] (zip keys result) = Some ps" and sp: "s = map snd ps"
    by (auto simp: py_sorted_def and_then_Inr split: option.splits)
  from mapM_nth[OF k] have kl: "length keys = length result"
    and kn: "\<And>i. i < length result \<Longrightarrow> sort_key_of sortby (result ! i) = Inr (keys ! i)"
    by auto
  have pk: "\<forall>q \<in> set ps. sort_key_of sortby (snd q) = Inr (fst q)"
  proof
    fix q assume "q \<in> set ps"
    with sort_pairs_set[OF p] have "q \<in> set (zip keys result)" by simp
    then obtain i where "i < length result" "q = (keys ! i, result ! i)"
      using kl by (auto simp: in_set_zip)
    with kn show "sort_key_of sortby (snd q) = Inr (fst q)" by simp
  qed
  from py_take_is_take[OF t] fs sp obtain n where n: "features = map snd (take n ps)"
    by (auto simp: take_map)
  have "\<forall>q \<in> set (take n ps). sort_key_of sortby (snd q) = Inr (fst q)"
    using pk by (meson in_set_takeD)
  from mapM_pairs[OF this] n
  have m: "mapM (sort_key_of sortby) features = Inr (map fst (take n ps))" by simp
  from sort_pairs_ascending[OF p] have "successively ascending (map fst ps)" by simp
  then have "successively ascending (take n (map fst ps))" by (rule successively_take)
  then have "successively ascending (map fst (take n ps))" by (simp add: take_map)
  with m show ?thesis by blast
qed

text \<open>
  Claim C9. Of the \<^verbatim>\<open>sortby\<close> of a query the search reads the field of the first entry and
  nothing else: two queries that differ only in their \<^verbatim>\<open>sortby\<close>, with the same field in
  the first entry, get the same result, whatever the directions are. And whenever the
  assembly returns a FeatureCollection, the keys of its features under the field of
  \<^verbatim>\<open>sortby\<close> are in ascending order from each feature to the next.
\<close>

theorem direction_ignored:
  "(getitem s ''field'' = getitem s' ''field'' \<longrightarrow>
      search_queries a g req depth (dict_set ''sortby'' (JArr (s # xs)) q)
      = search_queries a g req depth (dict_set ''sortby'' (JArr (s' # xs')) q))
   \<and> (assemble s max_items result = Inr (feature_collection features)
       \<longrightarrow> (\<exists>keys. mapM (sort_key_of s) features = Inr keys \<and> successively ascending keys))"
  using search_queries_same_field[of s s' a g req depth xs q xs'] assemble_ascending
  by blast

lemma desc_assembled:
  "assemble (JObj [(''field'', JStr ''id''), (''direction'', JStr ''desc'')]) (JInt (- 1))
     three_items
   = Inr (feature_collection
            [served ''a'' [0, 0, 1, 1], served ''b'' [0, 0, 1, 1], served ''c'' [0, 0, 1, 1]])"
  by code_simp

lemma desc_keys:
  "mapM (sort_key_of (JObj [(''field'', JStr ''id''), (''direction'', JStr ''desc'')]))
     [served ''a'' [0, 0, 1, 1], served ''b'' [0, 0, 1, 1], served ''c'' [0, 0, 1, 1]]
   = Inr [JStr ''a'', JStr ''b'', JStr ''c'']"
  by code_simp

lemma desc_search:
  "search_queries (one_collection sort_provider) plane_geo json_request 1
     (sort_body (JStr ''desc''))
   = Some (Inr (feature_collection
        [served ''a'' [0, 0, 1, 1], served ''b'' [0, 0, 1, 1], served ''c'' [0, 0, 1, 1]]))"
  by code_simp

lemma sort_body_dict_set:
  "sort_body d = dict_set ''sortby'' (JArr [JObj [(''field'', JStr ''id''), (''direction'', d)]]) []"
  by (simp add: sort_body_def)

theorem direction_ignored_witness:
  "getitem (JObj [(''field'', JStr ''id''), (''direction'', JStr ''desc'')]) ''field''
     = getitem (JObj [(''field'', JStr ''id''), (''direction'', JStr ''asc'')]) ''field''
   \<and> search_queries (one_collection sort_provider) plane_geo json_request 1
       (sort_body (JStr ''desc''))
     = Some (Inr (feature_collection
          [served ''a'' [0, 0, 1, 1], served ''b'' [0, 0, 1, 1], served ''c'' [0, 0, 1, 1]]))
   \<and> search_queries (one_collection sort_provider) plane_geo json_request 1
       (sort_body (JStr ''asc''))
     = Some (Inr (feature_collection
          [served ''a'' [0, 0, 1, 1], served ''b'' [0, 0, 1, 1], served ''c'' [0, 0, 1, 1]]))
   \<and> assemble (JObj [(''field'', JStr ''id''), (''direction'', JStr ''desc'')]) (JInt (- 1))
       three_items
     = Inr (feature_collection
              [served ''a'' [0, 0, 1, 1], served ''b'' [0, 0, 1, 1], served ''c'' [0, 0, 1, 1]])
   \<and> successively ascending [JStr ''a'', JStr ''b'', JStr ''c'']"
proof -
  have f: "getitem (JObj [(''field'', JStr ''id''), (''direction'', JStr ''desc'')]) ''field''
     = getitem (JObj [(''field'', JStr ''id''), (''direction'', JStr ''asc'')]) ''field''"
    by simp
  note t = direction_ignored[where a = "one_collection sort_provider" and g = plane_geo
      and req = json_request and depth = 1
      and s = "JObj [(''field'', JStr ''id''), (''direction'', JStr ''desc'')]"
      and s' = "JObj [(''field'', JStr ''id''), (''direction'', JStr ''asc'')]"
      and xs = "[]" and xs' = "[]" and q = "[]"
      and max_items = "JInt (- 1)" and result = three_items
      and features = "[served ''a'' [0, 0, 1, 1], served ''b'' [0, 0, 1, 1],
                       served ''c'' [0, 0, 1, 1]]"]
  from t f desc_search have
    "search_queries (one_collection sort_provider) plane_geo json_request 1
       (sort_body (JStr ''asc''))
     = Some (Inr (feature_collection
          [served ''a'' [0, 0, 1, 1], served ''b'' [0, 0, 1, 1], served ''c'' [0, 0, 1, 1]]))"
    unfolding sort_body_dict_set by metis
  moreover from t desc_assembled desc_keys
  have "successively ascending [JStr ''a'', JStr ''b'', JStr ''c'']" by auto
  ultimately show ?thesis using f desc_search desc_assembled by blast
qed

section \<open>The branch of get\_stac\_collections\<close>

lemma collect_documents_nth:
  "collect_documents a req str_of toks ds = Inr (Inr contents)
   \<Longrightarrow> length contents = length ds
       \<and> (\<forall>i < length ds. collection_document a req str_of toks (ds ! i) = Inr (Inr (contents ! i)))"
proof (induction ds arbitrary: contents)
  case Nil
  then show ?case by simp
next
  case (Cons d ds)
  from Cons.prems obtain c cs where c: "collection_document a req str_of toks d = Inr (Inr c)"
    and cs: "collect_documents a req str_of toks ds = Inr (Inr cs)" and e: "contents = c # cs"
    by (auto split: sum.splits)
  from Cons.IH[OF cs] c e show ?case
    by (auto simp: nth_Cons split: nat.splits)
qed

lemma collection_document_status:
  "collection_document a req str_of toks d = Inr (Inl resp) \<Longrightarrow> fst resp \<noteq> 200"
  by (auto simp: collection_document_def get_exception_def and_then_Inr Let_def
      split: option.splits plugin.splits provider_result.splits list.splits if_splits)
    (meson neq_Nil_conv)

lemma collect_documents_status:
  "collect_documents a req str_of toks ds = Inr (Inl resp) \<Longrightarrow> fst resp \<noteq> 200"
proof (induction ds)
  case Nil
  then show ?case by simp
next
  case (Cons d ds)
  show ?case
  proof (cases "collection_document a req str_of toks d")
    case (Inl e)
    with Cons.prems show ?thesis by simp
  next
    case (Inr r)
    show ?thesis
    proof (cases r)
      case (Inl resp')
      with Inr Cons.prems collection_document_status[of a req str_of toks d resp]
      show ?thesis by simp
    next
      case (Inr c)
      with \<open>collection_document a req str_of toks d = Inr r\<close> Cons show ?thesis
        by (auto split: sum.splits)
    qed
  qed
qed

lemma get_stac_collections_ok:
  assumes "is_valid req" and "get_stac_collections a req str_of path = Inr (200, body)"
  shows "\<exists>contents. collect_documents a req str_of (split_str ''/'' path)
                      (selected_datasets a path) = Inr (Inr contents)
                    \<and> body = Json (wrap_contents contents)"
proof (cases "collect_documents a req str_of (split_str ''/'' path) (selected_datasets a path)")
  case (Inl e)
  with assms show ?thesis by (simp add: get_stac_collections_def)
next
  case (Inr r)
  show ?thesis
  proof (cases r)
    case (Inl resp)
    with Inr assms have "resp = (200, body)" by (simp add: get_stac_collections_def)
    with collect_documents_status[of a req str_of _ _ resp] Inr Inl show ?thesis by auto
  next
    case (Inr contents)
    with \<open>collect_documents a req str_of (split_str ''/'' path) (selected_datasets a path) = Inr r\<close>
      assms show ?thesis by (simp add: get_stac_collections_def)
  qed
qed

text \<open>
  Claim C10. When the first token of the path has exactly two characters, the datasets
  described are the one named by the last token, and a response 200 to a valid request is
  the document of that collection; for every other path the datasets are all the configured
  stac-collections, and a response 200 holds one document for each of them, in the order of
  the configuration (in a list, unless there is exactly one).
\<close>

theorem collections_branch:
  "(length (hd (split_str ''/'' path)) = 2 \<longrightarrow>
      selected_datasets a path = [last (split_str ''/'' path)]
      \<and> (is_valid req \<and> get_stac_collections a req str_of path = Inr (200, body) \<longrightarrow>
           (\<exists>content. body = Json (JObj content)
              \<and> collection_document a req str_of (split_str ''/'' path)
                    (last (split_str ''/'' path)) = Inr (Inr content))))
   \<and> (length (hd (split_str ''/'' path)) \<noteq> 2 \<longrightarrow>
        selected_datasets a path = map fst (stac_collections a)
        \<and> (is_valid req \<and> get_stac_collections a req str_of path = Inr (200, body) \<longrightarrow>
             (\<exists>contents. body = Json (wrap_contents contents)
                \<and> length contents = length (stac_collections a)
                \<and> (\<forall>i < length (stac_collections a).
                      collection_document a req str_of (split_str ''/'' path)
                        (fst (stac_collections a ! i)) = Inr (Inr (contents ! i))))))"
proof (cases "length (hd (split_str ''/'' path)) = 2")
  case True
  then have s: "selected_datasets a path = [last (split_str ''/'' path)]"
    by (simp add: selected_datasets_def Let_def)
  have "\<exists>content. body = Json (JObj content)
              \<and> collection_document a req str_of (split_str ''/'' path)
                    (last (split_str ''/'' path)) = Inr (Inr content)"
    if v: "is_valid req" and r: "get_stac_collections a req str_of path = Inr (200, body)"
  proof -
    from get_stac_collections_ok[OF v r] obtain contents where
      c: "collect_documents a req str_of (split_str ''/'' path) (selected_datasets a path)
            = Inr (Inr contents)"
      and b: "body = Json (wrap_contents contents)" by blast
    note n = collect_documents_nth[OF c]
    with s obtain content where "contents = [content]"
      by (cases contents) auto
    with n s b show ?thesis by auto
  qed
  with s True show ?thesis by blast
next
  case False
  then have s: "selected_datasets a path = map fst (stac_collections a)"
    by (simp add: selected_datasets_def Let_def)
  have "\<exists>contents. body = Json (wrap_contents contents)
                \<and> length contents = length (stac_collections a)
                \<and> (\<forall>i < length (stac_collections a).
                      collection_document a req str_of (split_str ''/'' path)
                        (fst (stac_collections a ! i)) = Inr (Inr (contents ! i)))"
    if v: "is_valid req" and r: "get_stac_collections a req str_of path = Inr (200, body)"
  proof -
    from get_stac_collections_ok[OF v r] obtain contents where
      c: "collect_documents a req str_of (split_str ''/'' path) (selected_datasets a path)
            = Inr (Inr contents)"
      and b: "body = Json (wrap_contents contents)" by blast
    from collect_documents_nth[OF c] s b show ?thesis by auto
  qed
  with s False show ?thesis by blast
qed

lemma two_collections_listing:
  "get_stac_collections two_collections json_request (\<lambda>j. []) ''collections''
     = Inr (200, Json (JObj [(''collections'',
          JArr [JObj (listed ''A'' ''a'' ''A''), JObj (listed ''B'' ''b'' ''B'')])]))"
  by code_simp

lemma two_collections_single:
  "get_stac_collections two_collections json_request (\<lambda>j. []) ''xy/B''
     = Inr (200, Json (JObj (listed ''B'' ''b'' ''B/B'')))"
  by code_simp

lemma two_collections_tokens:
  "length (hd (split_str ''/'' ''collections'')) = 11"
  "length (hd (split_str ''/'' ''xy/B'')) = 2"
  "last (split_str ''/'' ''xy/B'') = ''B''"
  "split_str ''/'' ''xy/B'' = [''xy'', ''B'']"
  "is_valid json_request"
  "map fst (stac_collections two_collections) = [''A'', ''B'']"
  by code_simp+

theorem collections_branch_witness:
  "is_valid json_request
   \<and> get_stac_collections two_collections json_request (\<lambda>j. []) ''xy/B''
       = Inr (200, Json (JObj (listed ''B'' ''b'' ''B/B'')))
   \<and> length (hd (split_str ''/'' ''xy/B'')) = 2
   \<and> selected_datasets two_collections ''xy/B'' = [''B'']
   \<and> collection_document two_collections json_request (\<lambda>j. []) [''xy'', ''B''] ''B''
       = Inr (Inr (listed ''B'' ''b'' ''B/B''))
   \<and> get_stac_collections two_collections json_request (\<lambda>j. []) ''collections''
       = Inr (200, Json (JObj [(''collections'',
            JArr [JObj (listed ''A'' ''a'' ''A''), JObj (listed ''B'' ''b'' ''B'')])]))
   \<and> length (hd (split_str ''/'' ''collections'')) = 11
   \<and> selected_datasets two_collections ''collections'' = [''A'', ''B'']"
proof -
  from collections_branch[where path = "''xy/B''" and a = two_collections
      and req = json_request and str_of = "\<lambda>j. []"
      and body = "Json (JObj (listed ''B'' ''b'' ''B/B''))"]
    two_collections_single
  have 1: "selected_datasets two_collections ''xy/B'' = [''B'']
      \<and> collection_document two_collections json_request (\<lambda>j. []) [''xy'', ''B''] ''B''
          = Inr (Inr (listed ''B'' ''b'' ''B/B''))"
    by (simp add: two_collections_tokens)
  from collections_branch[where path = "''collections''" and a = two_collections]
  have 2: "selected_datasets two_collections ''collections'' = [''A'', ''B'']"
    by (simp add: two_collections_tokens)
  from 1 2 two_collections_tokens two_collections_single two_collections_listing
  show ?thesis by simp
qed

end
